theory Spec2Isabelle
  imports Main "HOL-Library.AList" "HOL-Library.Sublist"
begin

section \<open>Errors and the process status\<close>

text \<open>
  Every exception the script can raise is a value. \<open>SystemExit n\<close> is \<open>exit(n)\<close>;
  the other constructors are uncaught exceptions, which end the interpreter with
  status 1.
\<close>

datatype pyerror =
    SystemExit int
  | HTTPError
  | JarMissing
  | IndexError
  | AttributeError
  | ParseError
  | AdbError
  | CalledProcessError
  | FileNotFoundError
  | FileExistsError
  | NotADirectoryError
  | IsADirectoryError
  | DirectoryNotEmpty

fun exit_status :: "pyerror + 'a \<Rightarrow> int" where
  "exit_status (Inr _) = 0"
| "exit_status (Inl (SystemExit n)) = n"
| "exit_status (Inl _) = 1"

section \<open>Strings and path names\<close>

definition endswith :: "string \<Rightarrow> string \<Rightarrow> bool" where
  "endswith s suf \<longleftrightarrow> length suf \<le> length s \<and> drop (length s - length suf) s = suf"

definition removeprefix :: "string \<Rightarrow> string \<Rightarrow> string" where
  "removeprefix pre s = (if take (length pre) s = pre then drop (length pre) s else s)"

text \<open>\<open>s.split(':', 1)[1]\<close>: the text after the first colon, \<open>IndexError\<close> (here \<open>None\<close>)
  when there is no colon.\<close>

definition after_colon :: "string \<Rightarrow> string option" where
  "after_colon s =
     (if CHR '':'' \<in> set s then Some (tl (dropWhile (\<lambda>c. c \<noteq> CHR '':'') s)) else None)"

fun split_on :: "char \<Rightarrow> string \<Rightarrow> string list" where
  "split_on c [] = [[]]"
| "split_on c (x # xs) =
     (if x = c then [] # split_on c xs
      else (case split_on c xs of [] \<Rightarrow> [[x]] | y # ys \<Rightarrow> (x # y) # ys))"

text \<open>\<open>Path(s).name\<close>: the last component of \<open>s\<close>; empty components and \<open>.\<close> are
  dropped by \<open>pathlib\<close>, and a path with no component left has the name \<open>''''\<close>.\<close>

definition path_name :: "string \<Rightarrow> string" where
  "path_name s =
     (case filter (\<lambda>c. c \<noteq> [] \<and> c \<noteq> ''.'') (split_on CHR ''/'' s) of
        [] \<Rightarrow> []
      | c # cs \<Rightarrow> last (c # cs))"

text \<open>\<open>Path.stem\<close>: the name without its last suffix. A leading dot and a trailing dot
  do not start a suffix.\<close>

definition stem :: "string \<Rightarrow> string" where
  "stem name =
     (if CHR ''.'' \<notin> set name then name
      else let ext = rev (takeWhile (\<lambda>c. c \<noteq> CHR ''.'') (rev name));
               i = length name - length ext - 1
           in if 0 < i \<and> ext \<noteq> [] then take i name else name)"

section \<open>The file system\<close>

text \<open>
  A path is the list of its components below the directory of the script
  (\<open>Path(__file__).resolve().parent\<close>), which is the path \<open>[]\<close> and always a directory.
  The file system is an association list from paths to nodes; the order of the list is
  the order in which a directory is enumerated. Package identifiers, asset names and
  directory entries are single path components (a name with a slash in it is outside the
  model); symbolic links and permissions are left out.
\<close>

type_synonym path = "string list"

datatype node = File string | Dir

type_synonym filesystem = "(path \<times> node) list"

definition lookup :: "filesystem \<Rightarrow> path \<Rightarrow> node option" where
  "lookup fs p = (if p = [] then Some Dir else map_of fs p)"

text \<open>\<open>d / n\<close> for one component \<open>n\<close>: \<open>pathlib\<close> drops an empty or \<open>.\<close> component, and
  the operating system resolves \<open>..\<close> to the parent.\<close>

definition join :: "path \<Rightarrow> string \<Rightarrow> path" where
  "join d n = (if n = [] \<or> n = ''.'' then d else if n = ''..'' then butlast d else d @ [n])"

definition parent_check :: "filesystem \<Rightarrow> path \<Rightarrow> pyerror option" where
  "parent_check fs p =
     (case lookup fs (butlast p) of
        None \<Rightarrow> Some FileNotFoundError
      | Some (File _) \<Rightarrow> Some NotADirectoryError
      | Some Dir \<Rightarrow> None)"

definition read_file :: "filesystem \<Rightarrow> path \<Rightarrow> pyerror + string" where
  "read_file fs p =
     (case lookup fs p of
        None \<Rightarrow> Inl FileNotFoundError
      | Some Dir \<Rightarrow> Inl IsADirectoryError
      | Some (File d) \<Rightarrow> Inr d)"

text \<open>\<open>open(p, 'w')\<close> followed by \<open>write\<close>: creates or truncates the file.\<close>

definition write_file :: "filesystem \<Rightarrow> path \<Rightarrow> string \<Rightarrow> pyerror + filesystem" where
  "write_file fs p d =
     (case lookup fs p of
        Some Dir \<Rightarrow> Inl IsADirectoryError
      | _ \<Rightarrow> (case parent_check fs p of
                Some e \<Rightarrow> Inl e
              | None \<Rightarrow> Inr (AList.update p (File d) fs)))"

text \<open>\<open>Path.mkdir()\<close> with the defaults \<open>parents=False\<close>, \<open>exist_ok=False\<close>.\<close>

definition mkdir :: "filesystem \<Rightarrow> path \<Rightarrow> pyerror + filesystem" where
  "mkdir fs p =
     (case lookup fs p of
        Some _ \<Rightarrow> Inl FileExistsError
      | None \<Rightarrow> (case parent_check fs p of
                   Some e \<Rightarrow> Inl e
                 | None \<Rightarrow> Inr (fs @ [(p, Dir)])))"

text \<open>\<open>Path.mkdir(parents=True, exist_ok=True)\<close>: walks the components below \<open>pre\<close>,
  creating the directories that are missing; a regular file in the way is an error.\<close>

fun mkdir_from :: "path \<Rightarrow> string list \<Rightarrow> filesystem \<Rightarrow> pyerror + filesystem" where
  "mkdir_from pre [] fs = Inr fs"
| "mkdir_from pre (c # cs) fs =
     (case lookup fs (pre @ [c]) of
        Some Dir \<Rightarrow> mkdir_from (pre @ [c]) cs fs
      | Some (File _) \<Rightarrow> Inl (if cs = [] then FileExistsError else NotADirectoryError)
      | None \<Rightarrow> mkdir_from (pre @ [c]) cs (fs @ [(pre @ [c], Dir)]))"

definition mkdir_parents :: "filesystem \<Rightarrow> path \<Rightarrow> pyerror + filesystem" where
  "mkdir_parents fs p = mkdir_from [] p fs"

text \<open>\<open>Path.unlink()\<close> and \<open>os.remove\<close>.\<close>

definition unlink :: "filesystem \<Rightarrow> path \<Rightarrow> pyerror + filesystem" where
  "unlink fs p =
     (case lookup fs p of
        None \<Rightarrow> Inl FileNotFoundError
      | Some Dir \<Rightarrow> Inl IsADirectoryError
      | Some (File _) \<Rightarrow> Inr (AList.delete p fs))"

definition remove_tree :: "filesystem \<Rightarrow> path \<Rightarrow> filesystem" where
  "remove_tree fs p = filter (\<lambda>(q, n). \<not> prefix p q) fs"

text \<open>\<open>shutil.rmtree(p)\<close>.\<close>

definition rmtree :: "filesystem \<Rightarrow> path \<Rightarrow> pyerror + filesystem" where
  "rmtree fs p =
     (case lookup fs p of
        None \<Rightarrow> Inl FileNotFoundError
      | Some (File _) \<Rightarrow> Inl NotADirectoryError
      | Some Dir \<Rightarrow> Inr (remove_tree fs p))"

text \<open>\<open>shutil.rmtree(p, ignore_errors=True)\<close>: a regular file at \<open>p\<close> stays (the error is
  swallowed). When \<open>p\<close> does not exist nothing below it exists either, in a file system
  where every entry has its parent; the model removes such entries all the same.\<close>

definition rmtree_ignore_errors :: "filesystem \<Rightarrow> path \<Rightarrow> filesystem" where
  "rmtree_ignore_errors fs p =
     (case lookup fs p of Some (File _) \<Rightarrow> fs | _ \<Rightarrow> remove_tree fs p)"

definition entries :: "filesystem \<Rightarrow> path \<Rightarrow> string list" where
  "entries fs d = remdups (map (\<lambda>(q, n). last q) (filter (\<lambda>(q, n). q \<noteq> [] \<and> butlast q = d) fs))"

text \<open>\<open>os.rename\<close> (POSIX): an existing regular file at the destination is replaced.\<close>

definition rename :: "filesystem \<Rightarrow> path \<Rightarrow> path \<Rightarrow> pyerror + filesystem" where
  "rename fs src dst =
     (case lookup fs src of
        None \<Rightarrow> Inl FileNotFoundError
      | Some (File d) \<Rightarrow>
          (case lookup fs dst of
             Some Dir \<Rightarrow> Inl IsADirectoryError
           | _ \<Rightarrow> (case parent_check fs dst of
                     Some e \<Rightarrow> Inl e
                   | None \<Rightarrow> Inr (AList.update dst (File d) (AList.delete src fs))))
      | Some Dir \<Rightarrow>
          (case lookup fs dst of
             Some (File _) \<Rightarrow> Inl NotADirectoryError
           | Some Dir \<Rightarrow>
               (if entries fs dst \<noteq> [] then Inl DirectoryNotEmpty
                else Inr (map (\<lambda>(q, n). (if prefix src q then dst @ drop (length src) q else q, n))
                           (AList.delete dst fs)))
           | None \<Rightarrow>
               (case parent_check fs dst of
                  Some e \<Rightarrow> Inl e
                | None \<Rightarrow>
                    Inr (map (\<lambda>(q, n). (if prefix src q then dst @ drop (length src) q else q, n))
                          fs))))"

text \<open>\<open>Path.iterdir()\<close> and \<open>Path.glob("*.apk")\<close>; the latter yields nothing when the
  directory is missing.\<close>

definition iterdir :: "filesystem \<Rightarrow> path \<Rightarrow> pyerror + path list" where
  "iterdir fs d =
     (case lookup fs d of
        None \<Rightarrow> Inl FileNotFoundError
      | Some (File _) \<Rightarrow> Inl NotADirectoryError
      | Some Dir \<Rightarrow> Inr (map (\<lambda>n. d @ [n]) (entries fs d)))"

definition glob_apk :: "filesystem \<Rightarrow> path \<Rightarrow> path list" where
  "glob_apk fs d =
     (case lookup fs d of
        Some Dir \<Rightarrow> map (\<lambda>n. d @ [n]) (filter (\<lambda>n. endswith n ''.apk'') (entries fs d))
      | _ \<Rightarrow> [])"

text \<open>The entries strictly below a directory, with paths relative to it, and the
  reverse: a tree placed at a path.\<close>

definition subtree :: "filesystem \<Rightarrow> path \<Rightarrow> filesystem" where
  "subtree fs d =
     map (\<lambda>(q, n). (drop (length d) q, n)) (filter (\<lambda>(q, n). strict_prefix d q) fs)"

definition place_tree :: "filesystem \<Rightarrow> path \<Rightarrow> filesystem \<Rightarrow> filesystem" where
  "place_tree fs d t =
     fs @ (d, Dir) # map (\<lambda>(q, n). (d @ q, n)) (filter (\<lambda>(q, n). q \<noteq> []) t)"

section \<open>The world: file system and observable effects\<close>

datatype event =
    Print string
  | HttpGet string
  | Shell string
  | SyncPull string path
  | Subprocess "string list"
  | Uninstall string

text \<open>The trace records, in order, the calls to the collaborators and the messages the
  script writes with its own \<open>print\<close> statements (lines 54, 120 and 127 of the source).
  \<open>debug_log\<close> writes a line with the current time to standard output before most steps;
  these diagnostic lines are not events of the trace. The statements below therefore say
  which calls and which messages occur; apart from the usage error, where no step of the
  script calls \<open>debug_log\<close>, none of them says that nothing else reaches standard output.\<close>

record world =
  files :: filesystem
  trace :: "event list"

type_synonym 'a action = "world \<Rightarrow> (pyerror + 'a) \<times> world"

definition ok :: "'a \<Rightarrow> 'a action" where
  "ok x w = (Inr x, w)"

definition raise :: "pyerror \<Rightarrow> 'a action" where
  "raise e w = (Inl e, w)"

definition bnd :: "'a action \<Rightarrow> ('a \<Rightarrow> 'b action) \<Rightarrow> 'b action" where
  "bnd m f w = (case m w of (Inl e, w') \<Rightarrow> (Inl e, w') | (Inr x, w') \<Rightarrow> f x w')"

definition emit :: "event \<Rightarrow> unit action" where
  "emit ev w = (Inr (), w\<lparr>trace := trace w @ [ev]\<rparr>)"

definition fs_op :: "(filesystem \<Rightarrow> pyerror + filesystem) \<Rightarrow> unit action" where
  "fs_op f w = (case f (files w) of Inl e \<Rightarrow> (Inl e, w) | Inr fs' \<Rightarrow> (Inr (), w\<lparr>files := fs'\<rparr>))"

definition lift_result :: "pyerror + 'a \<Rightarrow> 'a action" where
  "lift_result r w = (case r of Inl e \<Rightarrow> (Inl e, w) | Inr x \<Rightarrow> (Inr x, w))"

definition require :: "'a option \<Rightarrow> pyerror \<Rightarrow> 'a action" where
  "require r e w = (case r of None \<Rightarrow> (Inl e, w) | Some x \<Rightarrow> (Inr x, w))"

section \<open>The environment: network, device and external tools\<close>

record asset =
  asset_name :: string
  browser_download_url :: string

text \<open>
  The collaborators of the script are parameters of the model. Where a collaborator
  fails the result is \<open>None\<close> (or \<open>False\<close>), and the model raises the one exception that
  stands for its failures: \<open>HTTPError\<close> for the network, \<open>AdbError\<close> for the device,
  \<open>ParseError\<close> for the XML parser, \<open>CalledProcessError\<close> for a subprocess.
  \<^item> \<open>release_assets url\<close>: \<open>requests.get(url)\<close>, \<open>raise_for_status()\<close> and
    \<open>json()["assets"]\<close>;
  \<^item> \<open>asset_content url\<close>: \<open>requests.get(url)\<close>, \<open>raise_for_status()\<close> and \<open>content\<close>;
  \<^item> \<open>shell_lines cmd\<close>: \<open>device.shell(cmd).splitlines()\<close>;
  \<^item> \<open>remote_file p\<close>: the bytes \<open>device.sync.pull\<close> reads at the remote path \<open>p\<close>;
  \<^item> \<open>apktool_d\<close>, \<open>apktool_b\<close>, \<open>apk_signer\<close>: what the decompiler, the recompiler and
    the signer compute;
  \<^item> \<open>adb_uninstall pkg\<close>: whether \<open>device.uninstall(pkg)\<close> returns;
  \<^item> \<open>adb_install_multiple argv\<close>: whether \<open>adb install-multiple\<close> exits with status 0;
  \<^item> \<open>xml_parse\<close>, \<open>xml_write\<close>: \<open>ET.parse\<close> and \<open>tree.write\<close> of the XML library;
  \<^item> \<open>program_dir\<close>: the absolute path of the directory of the script, as a string.
\<close>

datatype element = Element (tag: string) (attrib: "(string \<times> string) list") (children: "element list")

record env =
  release_assets :: "string \<Rightarrow> asset list option"
  asset_content :: "string \<Rightarrow> string option"
  shell_lines :: "string \<Rightarrow> string list option"
  remote_file :: "string \<Rightarrow> string option"
  apktool_d :: "string \<Rightarrow> filesystem option"
  apktool_b :: "filesystem \<Rightarrow> string option"
  apk_signer :: "string \<Rightarrow> string option"
  adb_uninstall :: "string \<Rightarrow> bool"
  adb_install_multiple :: "string list \<Rightarrow> bool"
  xml_parse :: "string \<Rightarrow> element option"
  xml_write :: "element \<Rightarrow> string"
  program_dir :: string

definition path_str :: "env \<Rightarrow> path \<Rightarrow> string" where
  "path_str E p = program_dir E @ concat (map (\<lambda>c. CHR ''/'' # c) p)"

definition APKTOOL_URL :: string where
  "APKTOOL_URL = ''https://api.github.com/repos/iBotPeaches/Apktool/releases/latest''"

definition UBER_APK_SIGNER_URL :: string where
  "UBER_APK_SIGNER_URL = ''https://api.github.com/repos/patrickfav/uber-apk-signer/releases/latest''"

definition UTILS_DIR :: path where "UTILS_DIR = [''utils'']"
definition PACKAGES_DIR :: path where "PACKAGES_DIR = [''packages'']"
definition PATCHED_DIR :: path where "PATCHED_DIR = [''patched'']"

section \<open>Tool provisioner\<close>

definition download_latest_jar :: "env \<Rightarrow> string \<Rightarrow> path action" where
  "download_latest_jar E download_url =
     bnd (emit (HttpGet download_url)) (\<lambda>_.
     bnd (require (release_assets E download_url) HTTPError) (\<lambda>assets.
       (case find (\<lambda>item. endswith (asset_name item) ''.jar'') assets of
          None \<Rightarrow> raise JarMissing
        | Some jar_asset \<Rightarrow>
            (let jar_file_path = join UTILS_DIR (asset_name jar_asset) in
             bnd (\<lambda>w. if lookup (files w) jar_file_path \<noteq> None
                       then fs_op (\<lambda>fs. unlink fs jar_file_path) w else ok () w) (\<lambda>_.
             bnd (emit (HttpGet (browser_download_url jar_asset))) (\<lambda>_.
             bnd (require (asset_content E (browser_download_url jar_asset)) HTTPError) (\<lambda>content.
             bnd (fs_op (\<lambda>fs. write_file fs jar_file_path content)) (\<lambda>_.
             ok jar_file_path))))))))"

section \<open>Package extractor\<close>

definition sync_pull :: "env \<Rightarrow> string \<Rightarrow> path \<Rightarrow> unit action" where
  "sync_pull E src dst =
     bnd (emit (SyncPull src dst)) (\<lambda>_.
     bnd (require (remote_file E src) AdbError) (\<lambda>content.
     fs_op (\<lambda>fs. write_file fs dst content)))"

fun pull_all :: "env \<Rightarrow> path \<Rightarrow> string list \<Rightarrow> unit action" where
  "pull_all E output_path [] = ok ()"
| "pull_all E output_path (apk # apks) =
     (case after_colon apk of
        None \<Rightarrow> raise IndexError
      | Some apk_path \<Rightarrow>
          bnd (sync_pull E apk_path (join output_path (path_name apk_path))) (\<lambda>_.
          pull_all E output_path apks))"

definition pull_package :: "env \<Rightarrow> string \<Rightarrow> path \<Rightarrow> unit action" where
  "pull_package E package_name output_path =
     bnd (emit (Shell (''pm path '' @ package_name))) (\<lambda>_.
     bnd (require (shell_lines E (''pm path '' @ package_name)) AdbError) (\<lambda>apks.
       if apks = [] then
         bnd (emit (Print ''Package not found'')) (\<lambda>_. raise (SystemExit 1))
       else
         bnd (fs_op (\<lambda>fs. mkdir_parents fs output_path)) (\<lambda>_.
         pull_all E output_path apks)))"

section \<open>Manifest patcher\<close>

text \<open>
  \<open>root.find(".//application")\<close>: the first element with the tag among the proper
  descendants of the root, in document order. \<open>find_iter\<close> is \<open>Element.iter\<close> cut at the
  first hit; \<open>update_iter\<close> applies \<open>f\<close> to that same element in place, which is what a
  mutation of the found element does to the tree.
\<close>

fun find_iter :: "string \<Rightarrow> element \<Rightarrow> element option"
  and find_first :: "string \<Rightarrow> element list \<Rightarrow> element option" where
  "find_iter t (Element g a cs) = (if g = t then Some (Element g a cs) else find_first t cs)"
| "find_first t [] = None"
| "find_first t (c # cs) =
     (case find_iter t c of Some e \<Rightarrow> Some e | None \<Rightarrow> find_first t cs)"

fun update_iter :: "string \<Rightarrow> (element \<Rightarrow> element) \<Rightarrow> element \<Rightarrow> element"
  and update_first :: "string \<Rightarrow> (element \<Rightarrow> element) \<Rightarrow> element list \<Rightarrow> element list" where
  "update_iter t f (Element g a cs) =
     (if g = t then f (Element g a cs) else Element g a (update_first t f cs))"
| "update_first t f [] = []"
| "update_first t f (c # cs) =
     (case find_iter t c of
        Some _ \<Rightarrow> update_iter t f c # cs
      | None \<Rightarrow> c # update_first t f cs)"

definition find_descendant :: "string \<Rightarrow> element \<Rightarrow> element option" where
  "find_descendant t root = find_first t (children root)"

definition update_descendant :: "string \<Rightarrow> (element \<Rightarrow> element) \<Rightarrow> element \<Rightarrow> element" where
  "update_descendant t f root =
     Element (tag root) (attrib root) (update_first t f (children root))"

definition get_attr :: "element \<Rightarrow> string \<Rightarrow> string option" where
  "get_attr e k = map_of (attrib e) k"

definition set_attr :: "string \<Rightarrow> string \<Rightarrow> element \<Rightarrow> element" where
  "set_attr k v e = Element (tag e) (AList.update k v (attrib e)) (children e)"

definition networkSecurityConfig :: string where
  "networkSecurityConfig = ''{http://schemas.android.com/apk/res/android}networkSecurityConfig''"

definition patch_manifest :: "env \<Rightarrow> path \<Rightarrow> unit action" where
  "patch_manifest E unpacked_apk_path =
     (let manifest_path = unpacked_apk_path @ [''AndroidManifest.xml''] in
      bnd (\<lambda>w. lift_result (read_file (files w) manifest_path) w) (\<lambda>text.
      bnd (require (xml_parse E text) ParseError) (\<lambda>root.
        (case find_descendant ''application'' root of
           None \<Rightarrow> raise AttributeError
         | Some application \<Rightarrow>
             if get_attr application networkSecurityConfig = None then
               fs_op (\<lambda>fs. write_file fs manifest_path
                 (xml_write E (update_descendant ''application''
                    (set_attr networkSecurityConfig ''@xml/network_security_config'') root)))
             else ok ()))))"

definition unlines :: "string list \<Rightarrow> string" where
  "unlines ls = concat (map (\<lambda>l. l @ [CHR 0x0A]) ls)"

definition debug_overrides_lines :: "string list" where
  \<open>debug_overrides_lines =
     [''    <debug-overrides>'',
      ''        <trust-anchors>'',
      ''            <certificates src="user" />'',
      ''        </trust-anchors>'',
      ''    </debug-overrides>'']\<close>

definition base_config_lines :: "string list" where
  \<open>base_config_lines =
     [''    <base-config cleartextTrafficPermitted="true">'',
      ''        <trust-anchors>'',
      ''            <certificates src="system" />'',
      ''            <certificates src="user" />'',
      ''        </trust-anchors>'',
      ''    </base-config>'']\<close>

definition network_security_config_lines :: "string list" where
  \<open>network_security_config_lines =
     [''<?xml version="1.0" encoding="utf-8"?>'', ''<network-security-config>'']
     @ debug_overrides_lines @ base_config_lines @ [''</network-security-config>'']\<close>

definition network_security_config_xml :: string where
  "network_security_config_xml = unlines network_security_config_lines"

definition add_network_security_config :: "path \<Rightarrow> unit action" where
  "add_network_security_config unpacked_apk_path =
     (let config_path = unpacked_apk_path @ [''res'', ''xml''] in
      bnd (fs_op (\<lambda>fs. mkdir_parents fs config_path)) (\<lambda>_.
      fs_op (\<lambda>fs. write_file fs (config_path @ [''network_security_config.xml''])
                     network_security_config_xml)))"

section \<open>External tools\<close>

text \<open>
  \<open>subprocess.run(argv, check=True)\<close>: the call is recorded, and a nonzero exit status
  raises \<open>CalledProcessError\<close>. The tools are not part of the script; each is modelled by
  what the script relies on. The decompiler reads the package and creates the output
  directory, which must not exist. The recompiler reads the directory and writes the
  package file. The signer reads \<open>x.apk\<close> and writes \<open>x-aligned-debugSigned.apk\<close> beside it.
  \<open>java -jar\<close> fails when the jar is not a file.
\<close>

definition is_file :: "filesystem \<Rightarrow> path \<Rightarrow> bool" where
  "is_file fs p = (case lookup fs p of Some (File _) \<Rightarrow> True | _ \<Rightarrow> False)"

definition run_apktool_d :: "env \<Rightarrow> path \<Rightarrow> path \<Rightarrow> path \<Rightarrow> unit action" where
  "run_apktool_d E apktool_jar apk out =
     bnd (emit (Subprocess [''java'', ''-jar'', path_str E apktool_jar, ''d'', path_str E apk,
                            ''-o'', path_str E out, ''-s''])) (\<lambda>_ w.
       if \<not> is_file (files w) apktool_jar \<or> lookup (files w) out \<noteq> None then raise CalledProcessError w
       else (case read_file (files w) apk of
               Inl _ \<Rightarrow> raise CalledProcessError w
             | Inr content \<Rightarrow>
                 (case apktool_d E content of
                    None \<Rightarrow> raise CalledProcessError w
                  | Some t \<Rightarrow> (Inr (), w\<lparr>files := place_tree (files w) out t\<rparr>))))"

definition run_apktool_b :: "env \<Rightarrow> path \<Rightarrow> path \<Rightarrow> path \<Rightarrow> unit action" where
  "run_apktool_b E apktool_jar unpacked packed =
     bnd (emit (Subprocess [''java'', ''-jar'', path_str E apktool_jar, ''b'', path_str E unpacked,
                            ''-o'', path_str E packed])) (\<lambda>_ w.
       if \<not> is_file (files w) apktool_jar \<or> unpacked = [] \<or> lookup (files w) unpacked \<noteq> Some Dir
       then raise CalledProcessError w
       else (case apktool_b E (subtree (files w) unpacked) of
               None \<Rightarrow> raise CalledProcessError w
             | Some content \<Rightarrow>
                 (case write_file (files w) packed content of
                    Inl _ \<Rightarrow> raise CalledProcessError w
                  | Inr fs' \<Rightarrow> (Inr (), w\<lparr>files := fs'\<rparr>))))"

definition signer_output :: "path \<Rightarrow> path" where
  "signer_output p =
     butlast p @ [(if endswith (last p) ''.apk'' then take (length (last p) - 4) (last p) else last p)
                  @ ''-aligned-debugSigned.apk'']"

definition run_signer :: "env \<Rightarrow> path \<Rightarrow> path \<Rightarrow> unit action" where
  "run_signer E signer_jar packed =
     bnd (emit (Subprocess [''java'', ''-jar'', path_str E signer_jar, ''-a'', path_str E packed])) (\<lambda>_ w.
       if \<not> is_file (files w) signer_jar then raise CalledProcessError w
       else (case read_file (files w) packed of
               Inl _ \<Rightarrow> raise CalledProcessError w
             | Inr content \<Rightarrow>
                 (case apk_signer E content of
                    None \<Rightarrow> raise CalledProcessError w
                  | Some signed \<Rightarrow>
                      (case write_file (files w) (signer_output packed) signed of
                         Inl _ \<Rightarrow> raise CalledProcessError w
                       | Inr fs' \<Rightarrow> (Inr (), w\<lparr>files := fs'\<rparr>)))))"

section \<open>Patch pipeline\<close>

text \<open>\<open>patch_package\<close> is cut at its stages: \<open>patch_split\<close> is the body of the loop over the
  pulled splits and \<open>patch_all\<close> the loop, \<open>reset_output\<close> the \<open>rmtree\<close> and \<open>mkdir\<close> before it,
  \<open>install_patched\<close> the uninstall and the install call after it.\<close>

definition patch_split :: "env \<Rightarrow> path \<Rightarrow> path \<Rightarrow> path \<Rightarrow> path \<Rightarrow> unit action" where
  "patch_split E patched_output apktool_jar signer_jar apk =
     (let file_name = stem (last apk);
          unpacked_apk_path = join patched_output file_name;
          packed_apk_path = patched_output @ [file_name @ ''.repack.apk''];
          signed_apk_path = patched_output @ [file_name @ ''.repack-aligned-debugSigned.apk'']
      in
      bnd (run_apktool_d E apktool_jar apk unpacked_apk_path) (\<lambda>_.
      bnd (if file_name = ''base'' then
             bnd (patch_manifest E unpacked_apk_path) (\<lambda>_.
             add_network_security_config unpacked_apk_path)
           else ok ()) (\<lambda>_.
      bnd (run_apktool_b E apktool_jar unpacked_apk_path packed_apk_path) (\<lambda>_.
      bnd (run_signer E signer_jar packed_apk_path) (\<lambda>_.
      bnd (fs_op (\<lambda>fs. unlink fs packed_apk_path)) (\<lambda>_.
      bnd (fs_op (\<lambda>fs. rmtree fs unpacked_apk_path)) (\<lambda>_.
      fs_op (\<lambda>fs. rename fs signed_apk_path (patched_output @ [file_name @ ''_patched.apk''])))))))))"

fun patch_all :: "env \<Rightarrow> path \<Rightarrow> path \<Rightarrow> path \<Rightarrow> path list \<Rightarrow> unit action" where
  "patch_all E patched_output apktool_jar signer_jar [] = ok ()"
| "patch_all E patched_output apktool_jar signer_jar (apk # apks) =
     bnd (patch_split E patched_output apktool_jar signer_jar apk) (\<lambda>_.
     patch_all E patched_output apktool_jar signer_jar apks)"

definition reset_output :: "path \<Rightarrow> unit action" where
  "reset_output patched_output =
     bnd (fs_op (\<lambda>fs. Inr (rmtree_ignore_errors fs patched_output))) (\<lambda>_.
     fs_op (\<lambda>fs. mkdir fs patched_output))"

definition install_patched :: "env \<Rightarrow> string \<Rightarrow> path \<Rightarrow> unit action" where
  "install_patched E package_name patched_output =
     bnd (emit (Uninstall package_name)) (\<lambda>_.
     bnd (if adb_uninstall E package_name then ok () else raise AdbError) (\<lambda>_.
     bnd (emit (Print ''Installing patched APKs...'')) (\<lambda>_ w.
       (let apk_files = map (path_str E) (glob_apk (files w) patched_output) in
        bnd (emit (Subprocess ([''adb'', ''install-multiple''] @ apk_files))) (\<lambda>_.
        if adb_install_multiple E apk_files then ok () else raise CalledProcessError) w))))"

definition patch_package :: "env \<Rightarrow> string \<Rightarrow> path \<Rightarrow> path \<Rightarrow> unit action" where
  "patch_package E package_name apktool_jar signer_jar =
     (let original_output = join PACKAGES_DIR package_name;
          patched_output = PATCHED_DIR @ [package_name @ ''_patched'']
      in
      bnd (pull_package E package_name original_output) (\<lambda>_.
      bnd (reset_output patched_output) (\<lambda>_.
      bnd (\<lambda>w. lift_result (iterdir (files w) original_output) w) (\<lambda>apks.
      bnd (patch_all E patched_output apktool_jar signer_jar apks) (\<lambda>_.
      install_patched E package_name patched_output)))))"

section \<open>Entry point\<close>

text \<open>Loading the module creates the three storage roots with \<open>mkdir(exist_ok=True)\<close>.\<close>

definition mkdir_exist_ok :: "filesystem \<Rightarrow> path \<Rightarrow> pyerror + filesystem" where
  "mkdir_exist_ok fs p =
     (case lookup fs p of
        Some Dir \<Rightarrow> Inr fs
      | Some (File _) \<Rightarrow> Inl FileExistsError
      | None \<Rightarrow> (case parent_check fs p of
                   Some e \<Rightarrow> Inl e
                 | None \<Rightarrow> Inr (fs @ [(p, Dir)])))"

definition module_init :: "unit action" where
  "module_init =
     bnd (fs_op (\<lambda>fs. mkdir_exist_ok fs UTILS_DIR)) (\<lambda>_.
     bnd (fs_op (\<lambda>fs. mkdir_exist_ok fs PACKAGES_DIR)) (\<lambda>_.
     fs_op (\<lambda>fs. mkdir_exist_ok fs PATCHED_DIR)))"

text \<open>The \<open>__main__\<close> block. \<open>argv ! 0\<close> is the name of the script; \<open>client.device(argv[1])\<close>
  only builds the handle of the device the environment describes.\<close>

definition usage :: string where
  "usage = ''Usage: python3 patch_apk.py <serial> <package_name>''"

definition main :: "env \<Rightarrow> string list \<Rightarrow> unit action" where
  "main E argv =
     (if length argv < 3 then
        bnd (emit (Print usage)) (\<lambda>_. raise (SystemExit 1))
      else
        bnd (download_latest_jar E APKTOOL_URL) (\<lambda>apktool_jar.
        bnd (download_latest_jar E UBER_APK_SIGNER_URL) (\<lambda>signer_jar.
        patch_package E (removeprefix ''package:'' (argv ! 2)) apktool_jar signer_jar)))"

text \<open>The script as a whole: the module is loaded, then the block runs.\<close>

definition program :: "env \<Rightarrow> string list \<Rightarrow> unit action" where
  "program E argv = bnd module_init (\<lambda>_. main E argv)"

section \<open>Notions used in the statements\<close>


fun is_print :: "event \<Rightarrow> bool" where
  "is_print (Print _) = True"
| "is_print _ = False"

fun is_subprocess :: "event \<Rightarrow> bool" where
  "is_subprocess (Subprocess _) = True"
| "is_subprocess _ = False"


fun is_uninstall :: "event \<Rightarrow> bool" where
  "is_uninstall (Uninstall _) = True"
| "is_uninstall _ = False"

text \<open>\<open>emits P m\<close>: whatever \<open>m\<close> does, it only appends events to the trace, and each of
  them satisfies \<open>P\<close>.\<close>

definition emits :: "(event \<Rightarrow> bool) \<Rightarrow> 'a action \<Rightarrow> bool" where
  "emits P m \<longleftrightarrow>
     (\<forall>w r w'. m w = (r, w') \<longrightarrow> (\<exists>evs. trace w' = trace w @ evs \<and> (\<forall>ev \<in> set evs. P ev)))"

text \<open>The remote path of a reported line and the name of its local copy.\<close>

definition remote_path :: "string \<Rightarrow> string" where
  "remote_path l = tl (dropWhile (\<lambda>c. c \<noteq> CHR '':'') l)"

definition local_name :: "string \<Rightarrow> string" where
  "local_name l = path_name (remote_path l)"

text \<open>The name of the signed output of a split.\<close>

definition patched_name :: "path \<Rightarrow> string" where
  "patched_name apk = stem (last apk) @ ''_patched.apk''"

text \<open>The pipeline of a split that is not patched: decompile, recompile, sign, delete the
  intermediate package and the working directory, rename the signed output.\<close>

definition repack_unmodified :: "env \<Rightarrow> path \<Rightarrow> path \<Rightarrow> path \<Rightarrow> path \<Rightarrow> unit action" where
  "repack_unmodified E patched_output apktool_jar signer_jar apk =
     (let file_name = stem (last apk) in
      bnd (run_apktool_d E apktool_jar apk (join patched_output file_name)) (\<lambda>_.
      bnd (run_apktool_b E apktool_jar (join patched_output file_name)
             (patched_output @ [file_name @ ''.repack.apk''])) (\<lambda>_.
      bnd (run_signer E signer_jar (patched_output @ [file_name @ ''.repack.apk''])) (\<lambda>_.
      bnd (fs_op (\<lambda>fs. unlink fs (patched_output @ [file_name @ ''.repack.apk'']))) (\<lambda>_.
      bnd (fs_op (\<lambda>fs. rmtree fs (join patched_output file_name))) (\<lambda>_.
      fs_op (\<lambda>fs. rename fs (patched_output @ [file_name @ ''.repack-aligned-debugSigned.apk''])
                     (patched_output @ [file_name @ ''_patched.apk'']))))))))"

definition patched_root :: "element \<Rightarrow> element" where
  "patched_root root =
     update_descendant ''application''
       (set_attr networkSecurityConfig ''@xml/network_security_config'') root"

text \<open>Substring search, to state what a written document contains:
  \<open>section_contains start stop s pat\<close> holds when \<open>pat\<close> occurs in \<open>s\<close> between the first
  \<open>start\<close> and the next \<open>stop\<close>.\<close>

fun strip_prefix :: "string \<Rightarrow> string \<Rightarrow> string option" where
  "strip_prefix [] s = Some s"
| "strip_prefix (p # ps) [] = None"
| "strip_prefix (p # ps) (c # cs) = (if p = c then strip_prefix ps cs else None)"

fun drop_until :: "string \<Rightarrow> string \<Rightarrow> string option" where
  "drop_until pat [] = strip_prefix pat []"
| "drop_until pat (c # cs) =
     (case strip_prefix pat (c # cs) of Some r \<Rightarrow> Some r | None \<Rightarrow> drop_until pat cs)"

fun take_until :: "string \<Rightarrow> string \<Rightarrow> string option" where
  "take_until pat [] = map_option (\<lambda>_. []) (strip_prefix pat [])"
| "take_until pat (c # cs) =
     (case strip_prefix pat (c # cs) of
        Some _ \<Rightarrow> Some []
      | None \<Rightarrow> map_option ((#) c) (take_until pat cs))"

definition section_contains :: "string \<Rightarrow> string \<Rightarrow> string \<Rightarrow> string \<Rightarrow> bool" where
  "section_contains start stop s pat =
     (case drop_until start s of
        None \<Rightarrow> False
      | Some r \<Rightarrow> (case take_until stop r of
                     None \<Rightarrow> False
                   | Some body \<Rightarrow> drop_until pat body \<noteq> None))"

text \<open>\<open>outside d fs\<close> is the file system without what lies strictly below \<open>d\<close>; two worlds
  \<open>agree\<close> on it when they have the same trace and the same files outside \<open>d\<close>.\<close>

definition outside :: "path \<Rightarrow> filesystem \<Rightarrow> filesystem" where
  "outside d fs = filter (\<lambda>(q, n). \<not> strict_prefix d q) fs"

definition agree :: "path \<Rightarrow> world \<Rightarrow> world \<Rightarrow> bool" where
  "agree d w v \<longleftrightarrow> trace w = trace v \<and> outside d (files w) = outside d (files v)"

section \<open>Example environments\<close>

text \<open>Concrete inputs at which the theorems below are instantiated.\<close>

definition example_env :: env where
  "example_env = \<lparr>
     release_assets = (\<lambda>u. Some [\<lparr>asset_name = ''notes.txt'', browser_download_url = ''u0''\<rparr>,
                                  \<lparr>asset_name = ''tool.jar'', browser_download_url = ''u1''\<rparr>,
                                  \<lparr>asset_name = ''other.jar'', browser_download_url = ''u2''\<rparr>]),
     asset_content = (\<lambda>u. Some ''JAR''),
     shell_lines = (\<lambda>c. Some [''package:/data/app/x/base.apk'', ''package:/data/app/x/split.apk'']),
     remote_file = (\<lambda>p. Some ''APK''),
     apktool_d = (\<lambda>c. Some [([''AndroidManifest.xml''], File ''M'')]),
     apktool_b = (\<lambda>t. Some ''P''),
     apk_signer = (\<lambda>c. Some ''S''),
     adb_uninstall = (\<lambda>p. True),
     adb_install_multiple = (\<lambda>a. True),
     xml_parse = (\<lambda>s. Some (Element ''manifest'' [] [Element ''application'' [] []])),
     xml_write = (\<lambda>e. ''W''),
     program_dir = ''/opt'' \<rparr>"

definition example_world :: world where
  "example_world = \<lparr>files = [([''utils''], Dir), ([''packages''], Dir), ([''patched''], Dir)],
                     trace = []\<rparr>"



definition bad_line_env :: env where
  "bad_line_env =
     example_env\<lparr>shell_lines := (\<lambda>c. Some [''package:/data/app/x/base.apk'', ''garbage''])\<rparr>"

definition base_dir :: path where
  "base_dir = [''patched'', ''com.x_patched'', ''base'']"

definition decompiled_world :: world where
  "decompiled_world =
     \<lparr>files = [([''patched''], Dir), ([''patched'', ''com.x_patched''], Dir),
               (base_dir, Dir), (base_dir @ [''AndroidManifest.xml''], File ''M'')],
      trace = []\<rparr>"

definition unpatched_manifest :: element where
  "unpatched_manifest = Element ''manifest'' [] [Element ''uses-sdk'' [] [], Element ''application'' [] []]"

definition manifest_env :: env where
  "manifest_env =
     example_env\<lparr>xml_parse := (\<lambda>s. if s = ''M'' then Some unpatched_manifest
                                     else if s = ''W''
                                     then Some (update_descendant ''application''
                                            (set_attr networkSecurityConfig ''@xml/network_security_config'')
                                            unpatched_manifest)
                                     else None),
                  xml_write := (\<lambda>e. ''W'')\<rparr>"

text \<open>An environment whose recompiler, signer and XML writer show what they were given: the
  recompiled package lists the paths of the tree with the content of the manifest, and the
  written manifest shows the attribute of the application element.\<close>

definition repack_env :: env where
  "repack_env =
     example_env\<lparr>
       apktool_d := (\<lambda>c. Some [([''AndroidManifest.xml''], File ''M''), ([''classes.dex''], File c)]),
       apktool_b := (\<lambda>t. Some (concat (map (\<lambda>(q, n). concat (map (\<lambda>c. CHR ''/'' # c) q)
                            @ (case n of File d \<Rightarrow> if q = [''AndroidManifest.xml''] then CHR ''='' # d else []
                                       | Dir \<Rightarrow> [])
                            @ '';'') t))),
       apk_signer := (\<lambda>c. Some (''signed:'' @ c)),
       xml_parse := (\<lambda>s. if s = ''M'' then Some unpatched_manifest else None),
       xml_write := (\<lambda>e. case find_descendant ''application'' e of
                            None \<Rightarrow> ''<manifest/>''
                          | Some app \<Rightarrow> (case get_attr app networkSecurityConfig of
                                          None \<Rightarrow> ''<application>''
                                        | Some v \<Rightarrow> ''<application nsc='' @ v @ ''>''))\<rparr>"

definition stale_world :: world where
  "stale_world =
     \<lparr>files = [([''utils''], Dir), ([''packages''], Dir), ([''patched''], Dir),
               ([''packages'', ''com.x''], Dir),
               ([''packages'', ''com.x'', ''old.apk''], File ''OLD'')],
      trace = []\<rparr>"

definition one_split_env :: env where
  "one_split_env = example_env\<lparr>shell_lines := (\<lambda>c. Some [''package:/data/app/x/base.apk''])\<rparr>"

definition clean_world :: world where
  "clean_world =
     \<lparr>files = files example_world
               @ [([''utils'', ''tool.jar''], File ''JAR''), ([''patched'', ''com.x_patched''], Dir)],
      trace = []\<rparr>"

definition leftover_world :: world where
  "leftover_world =
     \<lparr>files = files clean_world
               @ [([''patched'', ''com.x_patched'', ''gone_patched.apk''], File ''OLD'')],
      trace = []\<rparr>"

definition pulled_world :: world where
  "pulled_world =
     \<lparr>files = files clean_world
               @ [([''packages'', ''com.x''], Dir),
                  ([''packages'', ''com.x'', ''base.apk''], File ''APK''),
                  ([''packages'', ''com.x'', ''split.apk''], File ''APK'')],
      trace = []\<rparr>"

section \<open>Laws of the action monad\<close>

lemma bnd_ok [simp]: "bnd (ok x) f = f x"
  by (simp add: bnd_def ok_def fun_eq_iff)

lemma bnd_raise [simp]: "bnd (raise e) f = raise e"
  by (simp add: bnd_def raise_def fun_eq_iff)

lemma bnd_emit [simp]: "bnd (emit ev) f w = f () (w\<lparr>trace := trace w @ [ev]\<rparr>)"
  by (simp add: bnd_def emit_def)

lemma bnd_require_Some [simp]: "bnd (require (Some x) e) f = f x"
  by (simp add: bnd_def require_def fun_eq_iff)

lemma bnd_require_None [simp]: "bnd (require None e) f = raise e"
  by (simp add: bnd_def require_def raise_def fun_eq_iff)

lemma bnd_fs_op:
  "bnd (fs_op g) f w =
     (case g (files w) of Inl e \<Rightarrow> (Inl e, w) | Inr fs' \<Rightarrow> f () (w\<lparr>files := fs'\<rparr>))"
  by (simp add: bnd_def fs_op_def split: sum.splits)

lemma bnd_cases:
  "bnd m f w = (r, w') \<Longrightarrow>
     (\<exists>e. m w = (Inl e, w') \<and> r = Inl e) \<or> (\<exists>x w1. m w = (Inr x, w1) \<and> f x w1 = (r, w'))"
  by (auto simp: bnd_def split: prod.splits sum.splits)

lemma emits_ok [intro!]: "emits P (ok x)"
  by (simp add: emits_def ok_def)

lemma emits_raise [intro!]: "emits P (raise e)"
  by (simp add: emits_def raise_def)

lemma emits_emit [intro]: "P ev \<Longrightarrow> emits P (emit ev)"
  by (auto simp: emits_def emit_def)

lemma emits_fs_op [intro!]: "emits P (fs_op g)"
  by (auto simp: emits_def fs_op_def split: sum.splits)

lemma emits_require [intro!]: "emits P (require r e)"
  by (auto simp: emits_def require_def split: option.splits)

lemma emits_lift_result [intro!]: "emits P (lift_result r)"
  by (auto simp: emits_def lift_result_def split: sum.splits)

lemma emitsD:
  "emits P m \<Longrightarrow> m w = (r, w') \<Longrightarrow> \<exists>evs. trace w' = trace w @ evs \<and> (\<forall>ev \<in> set evs. P ev)"
  unfolding emits_def by blast

lemma emits_bnd [intro!]:
  assumes "emits P m" and "\<And>x. emits P (f x)"
  shows "emits P (bnd m f)"
  unfolding emits_def
proof (intro allI impI)
  fix w r w' assume "bnd m f w = (r, w')"
  from bnd_cases [OF this] show "\<exists>evs. trace w' = trace w @ evs \<and> (\<forall>ev \<in> set evs. P ev)"
  proof
    assume "\<exists>e. m w = (Inl e, w') \<and> r = Inl e"
    then obtain e where "m w = (Inl e, w')" by blast
    from emitsD [OF assms(1) this] show ?thesis .
  next
    assume "\<exists>x w1. m w = (Inr x, w1) \<and> f x w1 = (r, w')"
    then obtain x w1 where m: "m w = (Inr x, w1)" and f: "f x w1 = (r, w')" by blast
    from emitsD [OF assms(1) m] obtain e1 where e1: "trace w1 = trace w @ e1" "\<forall>ev \<in> set e1. P ev"
      by blast
    from emitsD [OF assms(2) f] obtain e2 where e2: "trace w' = trace w1 @ e2" "\<forall>ev \<in> set e2. P ev"
      by blast
    from e1 e2 have "trace w' = trace w @ (e1 @ e2) \<and> (\<forall>ev \<in> set (e1 @ e2). P ev)" by auto
    then show ?thesis by blast
  qed
qed


lemma emits_mono: "emits P m \<Longrightarrow> (\<And>ev. P ev \<Longrightarrow> Q ev) \<Longrightarrow> emits Q m"
  unfolding emits_def by blast

lemmas fs_defs = lookup_def join_def parent_check_def read_file_def write_file_def mkdir_def
  mkdir_parents_def unlink_def remove_tree_def rmtree_def rmtree_ignore_errors_def entries_def
  rename_def iterdir_def glob_apk_def subtree_def place_tree_def is_file_def

lemmas action_defs = ok_def raise_def emit_def fs_op_def require_def lift_result_def

lemma lookup_update:
  "p \<noteq> [] \<Longrightarrow> lookup (AList.update p v fs) q = (if q = p then Some v else lookup fs q)"
  by (simp add: lookup_def update_conv')

lemma lookup_delete:
  "lookup (AList.delete p fs) q = (if q = p \<and> q \<noteq> [] then None else lookup fs q)"
  by (simp add: lookup_def delete_conv')

section \<open>Usage error\<close>

lemma module_init_result:
  "module_init w = (r, w1) \<Longrightarrow>
     trace w1 = trace w \<and> (\<forall>e. r = Inl e \<longrightarrow> exit_status (Inl e :: pyerror + unit) = 1)"
  unfolding module_init_def
  by (auto simp: bnd_fs_op fs_op_def mkdir_exist_ok_def parent_check_def
           split: sum.splits option.splits node.splits)

text \<open>
  Claim C7. Invoked with fewer than two positional arguments (\<open>len(argv) < 3\<close>), the
  \<open>__main__\<close> block prints the usage message and exits with status 1; the trace holds no
  other event (no device call, no download, no subprocess) and the file system is
  untouched. For the script as a whole the status is 1 as well: once the module has created
  its three directories the block does just that, and if a directory cannot be created the
  run ends there with an exception and no event at all.
\<close>

theorem main_usage_error:
  "length argv < 3 \<Longrightarrow>
     main E argv w = (Inl (SystemExit 1), w\<lparr>trace := trace w @ [Print usage]\<rparr>)
     \<and> exit_status (fst (main E argv w)) = 1
     \<and> exit_status (fst (program E argv w)) = 1
     \<and> (\<forall>w1. module_init w = (Inr (), w1) \<longrightarrow>
           program E argv w = (Inl (SystemExit 1), w1\<lparr>trace := trace w @ [Print usage]\<rparr>))
     \<and> (\<forall>e w1. module_init w = (Inl e, w1) \<longrightarrow>
           program E argv w = (Inl e, w1) \<and> trace w1 = trace w)"
proof -
  assume few: "length argv < 3"
  have m: "main E argv v = (Inl (SystemExit 1), v\<lparr>trace := trace v @ [Print usage]\<rparr>)" for v
    using few by (simp add: main_def raise_def)
  obtain r w1 where init: "module_init w = (r, w1)" by (cases "module_init w")
  note I = module_init_result [OF init]
  have p: "exit_status (fst (program E argv w)) = 1"
  proof (cases r)
    case (Inl e)
    with init I show ?thesis by (simp add: program_def bnd_def)
  next
    case (Inr u)
    with init show ?thesis by (simp add: program_def bnd_def m)
  qed
  have ok: "program E argv w = (Inl (SystemExit 1), v\<lparr>trace := trace w @ [Print usage]\<rparr>)"
    if "module_init w = (Inr (), v)" for v
    using that module_init_result [OF that] by (simp add: program_def bnd_def m)
  have bad: "program E argv w = (Inl e, v) \<and> trace v = trace w"
    if "module_init w = (Inl e, v)" for e v
    using that module_init_result [OF that] by (simp add: program_def bnd_def)
  from m [of w] p ok bad show ?thesis by simp
qed

theorem main_usage_error_witness:
  "length [''adb-ssl-unpinning.py'', ''emulator-5554''] < 3
   \<and> main example_env [''adb-ssl-unpinning.py'', ''emulator-5554''] example_world
       = (Inl (SystemExit 1), example_world\<lparr>trace := trace example_world @ [Print usage]\<rparr>)
   \<and> exit_status (fst (main example_env [''adb-ssl-unpinning.py'', ''emulator-5554''] example_world)) = 1"
  using main_usage_error [of "[''adb-ssl-unpinning.py'', ''emulator-5554'']" example_env example_world]
  by simp

section \<open>Package not found\<close>















section \<open>Tool provisioner: the first jar asset\<close>

lemma find_first_match:
  "P a \<Longrightarrow> \<forall>b \<in> set pre. \<not> P b \<Longrightarrow> find P (pre @ a # post) = Some a"
  by (induction pre) auto

lemma butlast_neq: "p \<noteq> [] \<Longrightarrow> butlast p \<noteq> p"
proof
  assume ne: "p \<noteq> []" and eq: "butlast p = p"
  have "length (butlast p) = length p - 1" by (rule length_butlast)
  with eq have "length p = length p - 1" by simp
  moreover from ne have "0 < length p" by simp
  ultimately show False by arith
qed

lemma lookup_update_same: "p \<noteq> [] \<Longrightarrow> lookup (AList.update p v fs) p = Some v"
  by (simp add: lookup_def update_conv')

lemma write_file_read:
  "write_file fs p d = Inr fs' \<Longrightarrow> read_file fs' p = Inr d"
  by (auto simp: write_file_def read_file_def lookup_def update_conv'
           split: option.splits node.splits if_splits)

text \<open>
  Claim C8. Given the release listing, the provisioner selects the first listed asset
  whose name ends with \<open>.jar\<close>: whenever it returns, the result is the path of that
  asset's name in the tool cache and the file there holds the downloaded bytes; and it
  does return when the download succeeds and the cache path can be written. When no
  listed asset ends with \<open>.jar\<close> it raises the "JAR file is missing" exception right after
  the listing request, with the file system untouched; raised for the first tool, the
  exception ends the run with status 1.
\<close>

theorem download_latest_jar_first_jar:
  assumes listing: "release_assets E url = Some assets"
  shows "((\<forall>a \<in> set assets. \<not> endswith (asset_name a) ''.jar'') \<longrightarrow>
            download_latest_jar E url w = (Inl JarMissing, w\<lparr>trace := trace w @ [HttpGet url]\<rparr>))
    \<and> (\<forall>pre a post.
          assets = pre @ a # post \<and> endswith (asset_name a) ''.jar''
          \<and> (\<forall>b \<in> set pre. \<not> endswith (asset_name b) ''.jar'') \<longrightarrow>
            (\<forall>p w'. download_latest_jar E url w = (Inr p, w') \<longrightarrow>
                p = join UTILS_DIR (asset_name a)
                \<and> (\<exists>c. asset_content E (browser_download_url a) = Some c
                       \<and> read_file (files w') p = Inr c))
            \<and> (\<forall>c. asset_content E (browser_download_url a) = Some c
                    \<and> lookup (files w) (join UTILS_DIR (asset_name a)) \<noteq> Some Dir
                    \<and> parent_check (files w) (join UTILS_DIR (asset_name a)) = None \<longrightarrow>
                  fst (download_latest_jar E url w) = Inr (join UTILS_DIR (asset_name a))))
    \<and> ((\<forall>a \<in> set assets. \<not> endswith (asset_name a) ''.jar'') \<and> url = APKTOOL_URL
          \<and> \<not> length argv < 3 \<longrightarrow>
          main E argv w = (Inl JarMissing, w\<lparr>trace := trace w @ [HttpGet url]\<rparr>)
          \<and> exit_status (fst (main E argv w)) = 1)"
proof -
  let ?jar = "\<lambda>item. endswith (asset_name item) ''.jar''"
  have none: "download_latest_jar E url w = (Inl JarMissing, w\<lparr>trace := trace w @ [HttpGet url]\<rparr>)"
    if "\<forall>a \<in> set assets. \<not> ?jar a"
  proof -
    from that have "find ?jar assets = None" by (simp add: find_None_iff)
    then show ?thesis by (simp add: download_latest_jar_def listing raise_def)
  qed
  have ret: "p = join UTILS_DIR (asset_name a)
      \<and> (\<exists>c. asset_content E (browser_download_url a) = Some c \<and> read_file (files w') p = Inr c)"
    if sel: "assets = pre @ a # post \<and> ?jar a \<and> (\<forall>b \<in> set pre. \<not> ?jar b)"
      and run: "download_latest_jar E url w = (Inr p, w')" for pre a post p w'
  proof -
    from sel have f: "find ?jar assets = Some a" by (simp add: find_first_match)
    from run show ?thesis
      unfolding download_latest_jar_def Let_def
      by (cases "asset_content E (browser_download_url a)")
         (auto simp: listing f bnd_def action_defs write_file_read
               split: if_splits sum.splits prod.splits)
  qed
  have total: "fst (download_latest_jar E url w) = Inr (join UTILS_DIR (asset_name a))"
    if sel: "assets = pre @ a # post \<and> ?jar a \<and> (\<forall>b \<in> set pre. \<not> ?jar b)"
      and good: "asset_content E (browser_download_url a) = Some c
                    \<and> lookup (files w) (join UTILS_DIR (asset_name a)) \<noteq> Some Dir
                    \<and> parent_check (files w) (join UTILS_DIR (asset_name a)) = None"
    for pre a post c
  proof -
    from sel have f: "find ?jar assets = Some a" by (simp add: find_first_match)
    let ?p = "join UTILS_DIR (asset_name a)"
    from good have ne: "?p \<noteq> []" by (auto simp: lookup_def)
    have del: "lookup (AList.delete ?p (files w)) ?p = None"
      using ne by (simp add: lookup_def delete_conv')
    have par: "parent_check (AList.delete ?p (files w)) ?p = None"
      using good ne butlast_neq [OF ne]
      by (auto simp: parent_check_def lookup_def delete_conv' split: if_splits)
    show ?thesis
      unfolding download_latest_jar_def Let_def
      using good del par
      by (auto simp: listing f bnd_def action_defs unlink_def write_file_def
               split: option.splits node.splits)
  qed
  have abort: "main E argv w = (Inl JarMissing, w\<lparr>trace := trace w @ [HttpGet url]\<rparr>)
          \<and> exit_status (fst (main E argv w)) = 1"
    if "\<forall>a \<in> set assets. \<not> ?jar a" and "url = APKTOOL_URL" and "\<not> length argv < 3"
    using none [OF that(1)] that(2,3) by (simp add: main_def bnd_def)
  from none ret total abort show ?thesis by blast
qed

theorem download_latest_jar_first_jar_witness:
  "release_assets example_env APKTOOL_URL =
     Some ([\<lparr>asset_name = ''notes.txt'', browser_download_url = ''u0''\<rparr>]
           @ \<lparr>asset_name = ''tool.jar'', browser_download_url = ''u1''\<rparr>
           # [\<lparr>asset_name = ''other.jar'', browser_download_url = ''u2''\<rparr>])
   \<and> fst (download_latest_jar example_env APKTOOL_URL example_world) = Inr [''utils'', ''tool.jar'']"
proof -
  let ?pre = "[\<lparr>asset_name = ''notes.txt'', browser_download_url = ''u0''\<rparr>]"
  let ?a = "\<lparr>asset_name = ''tool.jar'', browser_download_url = ''u1''\<rparr>"
  let ?post = "[\<lparr>asset_name = ''other.jar'', browser_download_url = ''u2''\<rparr>]"
  have h: "release_assets example_env APKTOOL_URL = Some (?pre @ ?a # ?post)"
    by (simp add: example_env_def)
  have sel: "endswith (asset_name ?a) ''.jar'' \<and> (\<forall>b \<in> set ?pre. \<not> endswith (asset_name b) ''.jar'')"
    by (simp add: endswith_def)
  have p: "join UTILS_DIR (asset_name ?a) = [''utils'', ''tool.jar'']"
    by (simp add: join_def UTILS_DIR_def)
  have good: "asset_content example_env (browser_download_url ?a) = Some ''JAR''
      \<and> lookup (files example_world) (join UTILS_DIR (asset_name ?a)) \<noteq> Some Dir
      \<and> parent_check (files example_world) (join UTILS_DIR (asset_name ?a)) = None"
    unfolding p by (simp add: example_env_def example_world_def lookup_def parent_check_def)
  from download_latest_jar_first_jar [OF h, of example_world] sel good
  have "fst (download_latest_jar example_env APKTOOL_URL example_world) = Inr (join UTILS_DIR (asset_name ?a))"
    by blast
  with h p show ?thesis by simp
qed

section \<open>Lines of the device query\<close>

lemma after_colon_first: "CHR '':'' \<notin> set a \<Longrightarrow> after_colon (a @ CHR '':'' # b) = Some b"
proof -
  assume nc: "CHR '':'' \<notin> set a"
  then have "dropWhile (\<lambda>c. c \<noteq> CHR '':'') (a @ CHR '':'' # b) = CHR '':'' # b"
    by (induction a) auto
  then show ?thesis by (simp add: after_colon_def)
qed

lemma after_colon_None: "after_colon l = None \<longleftrightarrow> CHR '':'' \<notin> set l"
  by (simp add: after_colon_def)

lemma mkdir_from_error:
  "mkdir_from pre cs fs = Inl e \<Longrightarrow> e = FileExistsError \<or> e = NotADirectoryError"
  by (induction pre cs fs rule: mkdir_from.induct)
     (auto split: option.splits node.splits if_splits)

lemma write_file_error:
  "write_file fs p d = Inl e \<Longrightarrow> e = IsADirectoryError \<or> e = FileNotFoundError \<or> e = NotADirectoryError"
  by (auto simp: write_file_def parent_check_def split: option.splits node.splits)

lemma sync_pull_error:
  "sync_pull E src dst w = (Inl e, w') \<Longrightarrow>
     e = AdbError \<or> e = IsADirectoryError \<or> e = FileNotFoundError \<or> e = NotADirectoryError"
  unfolding sync_pull_def
  by (cases "remote_file E src")
     (auto simp: raise_def fs_op_def dest: write_file_error split: sum.splits)

lemma pull_all_bad_line:
  "l \<in> set apks \<Longrightarrow> CHR '':'' \<notin> set l \<Longrightarrow> pull_all E out apks w = (r, w') \<Longrightarrow>
     \<exists>e. r = Inl e \<and> (\<forall>n. e \<noteq> SystemExit n)"
proof (induction apks arbitrary: w)
  case Nil
  then show ?case by simp
next
  case (Cons x xs)
  show ?case
  proof (cases "after_colon x")
    case None
    with Cons.prems show ?thesis by (auto simp: raise_def)
  next
    case (Some apk_path)
    then have "x \<noteq> l" using Cons.prems(2) by (auto simp: after_colon_def split: if_splits)
    with Cons.prems have mem: "l \<in> set xs" by simp
    from Cons.prems(3) Some
    have "bnd (sync_pull E apk_path (join out (path_name apk_path))) (\<lambda>_. pull_all E out xs) w = (r, w')"
      by simp
    from bnd_cases [OF this] show ?thesis
    proof
      assume "\<exists>e. sync_pull E apk_path (join out (path_name apk_path)) w = (Inl e, w') \<and> r = Inl e"
      then show ?thesis using sync_pull_error by blast
    next
      assume "\<exists>u w1. sync_pull E apk_path (join out (path_name apk_path)) w = (Inr u, w1)
                \<and> pull_all E out xs w1 = (r, w')"
      then show ?thesis using Cons.IH [OF mem Cons.prems(2)] by blast
    qed
  qed
qed

lemma pull_all_no_IndexError:
  "\<forall>l \<in> set apks. CHR '':'' \<in> set l \<Longrightarrow> pull_all E out apks w = (Inl e, w') \<Longrightarrow> e \<noteq> IndexError"
proof (induction apks arbitrary: w)
  case Nil
  then show ?case by (simp add: ok_def)
next
  case (Cons x xs)
  from Cons.prems(1) obtain apk_path where ac: "after_colon x = Some apk_path"
    by (auto simp: after_colon_def)
  from Cons.prems(2) ac
  have "bnd (sync_pull E apk_path (join out (path_name apk_path))) (\<lambda>_. pull_all E out xs) w = (Inl e, w')"
    by simp
  from bnd_cases [OF this] show ?case
  proof
    assume "\<exists>e'. sync_pull E apk_path (join out (path_name apk_path)) w = (Inl e', w') \<and> Inl e = Inl e'"
    then show ?thesis using sync_pull_error by fastforce
  next
    assume "\<exists>u w1. sync_pull E apk_path (join out (path_name apk_path)) w = (Inr u, w1)
                \<and> pull_all E out xs w1 = (Inl e, w')"
    then show ?thesis using Cons.IH Cons.prems(1) by auto
  qed
qed

lemma sync_pull_emits: "emits (\<lambda>ev. \<not> is_print ev) (sync_pull E src dst)"
  unfolding sync_pull_def by (intro emits_bnd emits_emit emits_require emits_fs_op) simp

lemma pull_all_emits: "emits (\<lambda>ev. \<not> is_print ev) (pull_all E out apks)"
proof (induction apks)
  case Nil
  show ?case by (simp add: emits_ok)
next
  case (Cons x xs)
  show ?case
    by (cases "after_colon x") (auto intro!: emits_bnd emits_raise sync_pull_emits Cons.IH)
qed

lemma pull_package_lines:
  "shell_lines E (''pm path '' @ pkg) = Some apks \<Longrightarrow> apks \<noteq> [] \<Longrightarrow>
   pull_package E pkg out =
     bnd (emit (Shell (''pm path '' @ pkg))) (\<lambda>_.
     bnd (fs_op (\<lambda>fs. mkdir_parents fs out)) (\<lambda>_. pull_all E out apks))"
  by (simp add: pull_package_def fun_eq_iff)

text \<open>
  Claim C10. With a non-empty answer of the device, a line without a colon makes the
  extraction end in an exception that is not \<open>exit\<close>, and "Package not found" is not
  printed; the loop raises \<open>IndexError\<close> at such a line. When every line has a colon, the
  extraction never ends in \<open>IndexError\<close>. For a line \<open>a:b\<close> with no colon in \<open>a\<close>, the remote
  path pulled is \<open>b\<close>, the text after the first colon.
\<close>

theorem pull_package_colon_lines:
  assumes lines: "shell_lines E (''pm path '' @ pkg) = Some apks"
  shows "(\<forall>l \<in> set apks. CHR '':'' \<notin> set l \<longrightarrow>
            (\<exists>e w'. pull_package E pkg out w = (Inl e, w') \<and> (\<forall>n. e \<noteq> SystemExit n)
               \<and> Print ''Package not found'' \<notin> set (drop (length (trace w)) (trace w'))))
    \<and> ((\<forall>l \<in> set apks. CHR '':'' \<in> set l) \<longrightarrow> fst (pull_package E pkg out w) \<noteq> Inl IndexError)
    \<and> (\<forall>l rest w1. CHR '':'' \<notin> set l \<longrightarrow> pull_all E out (l # rest) w1 = (Inl IndexError, w1))
    \<and> (\<forall>a b rest. CHR '':'' \<notin> set a \<longrightarrow>
          pull_all E out ((a @ CHR '':'' # b) # rest) =
            bnd (sync_pull E b (join out (path_name b))) (\<lambda>_. pull_all E out rest))"
proof -
  have bad: "\<exists>e w'. pull_package E pkg out w = (Inl e, w') \<and> (\<forall>n. e \<noteq> SystemExit n)
               \<and> Print ''Package not found'' \<notin> set (drop (length (trace w)) (trace w'))"
    if mem: "l \<in> set apks" and nc: "CHR '':'' \<notin> set l" for l
  proof -
    from mem have ne: "apks \<noteq> []" by auto
    note eq = pull_package_lines [OF lines ne, of out]
    obtain r w' where run: "pull_package E pkg out w = (r, w')" by (cases "pull_package E pkg out w")
    have "emits (\<lambda>ev. \<not> is_print ev) (pull_package E pkg out)"
      unfolding eq by (intro emits_bnd emits_emit emits_fs_op pull_all_emits) simp
    from emitsD [OF this run] obtain evs where
      evs: "trace w' = trace w @ evs" "\<forall>ev \<in> set evs. \<not> is_print ev" by blast
    then have np: "Print ''Package not found'' \<notin> set (drop (length (trace w)) (trace w'))"
      by auto
    let ?w0 = "w\<lparr>trace := trace w @ [Shell (''pm path '' @ pkg)]\<rparr>"
    have "\<exists>e. r = Inl e \<and> (\<forall>n. e \<noteq> SystemExit n)"
    proof (cases "mkdir_parents (files ?w0) out")
      case (Inl e)
      with run have "r = Inl e" by (simp add: eq bnd_fs_op)
      moreover from Inl have "e = FileExistsError \<or> e = NotADirectoryError"
        unfolding mkdir_parents_def by (rule mkdir_from_error)
      ultimately show ?thesis by auto
    next
      case (Inr fs')
      with run have "pull_all E out apks (?w0\<lparr>files := fs'\<rparr>) = (r, w')"
        by (simp add: eq bnd_fs_op)
      from pull_all_bad_line [OF mem nc this] show ?thesis .
    qed
    with run np show ?thesis by blast
  qed
  have good: "fst (pull_package E pkg out w) \<noteq> Inl IndexError"
    if all: "\<forall>l \<in> set apks. CHR '':'' \<in> set l"
  proof (cases "apks = []")
    case True
    with lines show ?thesis by (simp add: pull_package_def raise_def)
  next
    case False
    note eq = pull_package_lines [OF lines False, of out]
    let ?w0 = "w\<lparr>trace := trace w @ [Shell (''pm path '' @ pkg)]\<rparr>"
    show ?thesis
    proof (cases "mkdir_parents (files ?w0) out")
      case (Inl e)
      then have "e = FileExistsError \<or> e = NotADirectoryError"
        unfolding mkdir_parents_def by (rule mkdir_from_error)
      with Inl show ?thesis by (auto simp: eq bnd_fs_op)
    next
      case (Inr fs')
      then have run: "pull_package E pkg out w = pull_all E out apks (?w0\<lparr>files := fs'\<rparr>)"
        by (simp add: eq bnd_fs_op)
      show ?thesis
      proof
        assume "fst (pull_package E pkg out w) = Inl IndexError"
        then obtain w' where "pull_all E out apks (?w0\<lparr>files := fs'\<rparr>) = (Inl IndexError, w')"
          unfolding run by (cases "pull_all E out apks (?w0\<lparr>files := fs'\<rparr>)") auto
        from pull_all_no_IndexError [OF all this] show False by simp
      qed
    qed
  qed
  have idx: "pull_all E out (l # rest) w1 = (Inl IndexError, w1)" if "CHR '':'' \<notin> set l" for l rest w1
    using that by (simp add: after_colon_def raise_def)
  have path: "pull_all E out ((a @ CHR '':'' # b) # rest) =
            bnd (sync_pull E b (join out (path_name b))) (\<lambda>_. pull_all E out rest)"
    if "CHR '':'' \<notin> set a" for a b rest
    using after_colon_first [OF that, of b] by (simp add: fun_eq_iff)
  from bad good idx path show ?thesis by blast
qed

theorem pull_package_colon_lines_witness:
  "shell_lines bad_line_env (''pm path '' @ ''com.x'')
     = Some [''package:/data/app/x/base.apk'', ''garbage'']
   \<and> (\<exists>e w'. pull_package bad_line_env ''com.x'' [''packages'', ''com.x''] example_world = (Inl e, w')
         \<and> (\<forall>n. e \<noteq> SystemExit n)
         \<and> Print ''Package not found'' \<notin> set (drop (length (trace example_world)) (trace w')))"
proof -
  have h: "shell_lines bad_line_env (''pm path '' @ ''com.x'')
     = Some [''package:/data/app/x/base.apk'', ''garbage'']"
    by (simp add: bad_line_env_def)
  have l: "''garbage'' \<in> set [''package:/data/app/x/base.apk'', ''garbage''] \<and> CHR '':'' \<notin> set ''garbage''"
    by simp
  from pull_package_colon_lines [OF h, of "[''packages'', ''com.x'']" example_world] l h
  show ?thesis by blast
qed

section \<open>Network security policy file\<close>

lemma policy_base_system:
  \<open>section_contains ''<base-config cleartextTrafficPermitted="true">'' ''</base-config>''
      network_security_config_xml ''<certificates src="system" />''\<close>
  by code_simp

lemma policy_base_user:
  \<open>section_contains ''<base-config cleartextTrafficPermitted="true">'' ''</base-config>''
      network_security_config_xml ''<certificates src="user" />''\<close>
  by code_simp

lemma policy_debug_user:
  \<open>section_contains ''<debug-overrides>'' ''</debug-overrides>''
      network_security_config_xml ''<certificates src="user" />''\<close>
  by code_simp

lemma map_of_append_keep: "map_of fs q = Some n \<Longrightarrow> map_of (fs @ gs) q = Some n"
  by (simp add: map_add_Some_iff)

lemma lookup_append_keep: "lookup fs q = Some n \<Longrightarrow> lookup (fs @ gs) q = Some n"
  by (auto simp: lookup_def map_add_Some_iff split: if_splits)

lemma mkdir_from_keeps:
  "mkdir_from pre cs fs = Inr fs' \<Longrightarrow> lookup fs q = Some n \<Longrightarrow> lookup fs' q = Some n"
proof (induction cs arbitrary: pre fs)
  case Nil
  then show ?case by simp
next
  case (Cons c cs)
  show ?case
  proof (cases "lookup fs (pre @ [c])")
    case None
    with Cons.prems(1) have run: "mkdir_from (pre @ [c]) cs (fs @ [(pre @ [c], Dir)]) = Inr fs'" by simp
    from Cons.IH [OF run lookup_append_keep [OF Cons.prems(2)]] show ?thesis .
  next
    case (Some m)
    show ?thesis
    proof (cases m)
      case (File d)
      with Some Cons.prems(1) show ?thesis by simp
    next
      case Dir
      with Some Cons.prems(1) have run: "mkdir_from (pre @ [c]) cs fs = Inr fs'" by simp
      from Cons.IH [OF run Cons.prems(2)] show ?thesis .
    qed
  qed
qed

lemma lookup_snoc_new: "lookup fs p = None \<Longrightarrow> lookup (fs @ [(p, n)]) p = Some n"
  by (auto simp: lookup_def map_add_Some_iff split: if_splits)

lemma mkdir_from_creates:
  "mkdir_from pre cs fs = Inr fs' \<Longrightarrow> lookup fs pre = Some Dir \<Longrightarrow> lookup fs' (pre @ cs) = Some Dir"
proof (induction cs arbitrary: pre fs)
  case Nil
  then show ?case by simp
next
  case (Cons c cs)
  show ?case
  proof (cases "lookup fs (pre @ [c])")
    case None
    with Cons.prems(1) have run: "mkdir_from (pre @ [c]) cs (fs @ [(pre @ [c], Dir)]) = Inr fs'" by simp
    from Cons.IH [OF run lookup_snoc_new [OF None]] show ?thesis by simp
  next
    case (Some m)
    show ?thesis
    proof (cases m)
      case (File d)
      with Some Cons.prems(1) show ?thesis by simp
    next
      case Dir
      with Some Cons.prems(1) have run: "mkdir_from (pre @ [c]) cs fs = Inr fs'" by simp
      from Some Dir have "lookup fs (pre @ [c]) = Some Dir" by simp
      from Cons.IH [OF run this] show ?thesis by simp
    qed
  qed
qed

lemma mkdir_parents_creates: "mkdir_parents fs p = Inr fs' \<Longrightarrow> lookup fs' p = Some Dir"
  using mkdir_from_creates [of "[]" p fs fs'] by (simp add: mkdir_parents_def lookup_def)

text \<open>
  Claim C4. Whenever \<open>add_network_security_config\<close> returns, the policy file of the split
  holds the fixed document, whatever was there before; it returns whenever no regular
  file is in the way of the directories \<open>res/xml\<close>, which it creates as needed, and the
  target is not a directory. In that document, the \<open>base-config\<close> element carries
  \<open>cleartextTrafficPermitted="true"\<close> and holds the \<open>system\<close> and \<open>user\<close> certificate
  anchors, and \<open>debug-overrides\<close> holds a \<open>user\<close> anchor.
\<close>

theorem network_security_config_written:
  \<open>(\<forall>w'. add_network_security_config d w = (Inr (), w') \<longrightarrow>
       read_file (files w') (d @ [''res'', ''xml'', ''network_security_config.xml''])
         = Inr network_security_config_xml)
   \<and> (\<forall>fs1. mkdir_parents (files w) (d @ [''res'', ''xml'']) = Inr fs1
         \<and> lookup fs1 (d @ [''res'', ''xml'', ''network_security_config.xml'']) \<noteq> Some Dir \<longrightarrow>
         fst (add_network_security_config d w) = Inr ())
   \<and> section_contains ''<base-config cleartextTrafficPermitted="true">'' ''</base-config>''
        network_security_config_xml ''<certificates src="system" />''
   \<and> section_contains ''<base-config cleartextTrafficPermitted="true">'' ''</base-config>''
        network_security_config_xml ''<certificates src="user" />''
   \<and> section_contains ''<debug-overrides>'' ''</debug-overrides>''
        network_security_config_xml ''<certificates src="user" />''\<close>
proof -
  let ?target = "d @ [''res'', ''xml'', ''network_security_config.xml'']"
  have written: "read_file (files w') ?target = Inr network_security_config_xml"
    if "add_network_security_config d w = (Inr (), w')" for w'
    using that unfolding add_network_security_config_def Let_def
    by (auto simp: bnd_fs_op fs_op_def write_file_read split: sum.splits)
  have total: "fst (add_network_security_config d w) = Inr ()"
    if mk: "mkdir_parents (files w) (d @ [''res'', ''xml'']) = Inr fs1"
      and nd: "lookup fs1 ?target \<noteq> Some Dir" for fs1
  proof -
    from mkdir_parents_creates [OF mk] have "parent_check fs1 ?target = None"
      by (simp add: parent_check_def butlast_append)
    with nd have "\<exists>fs2. write_file fs1 ?target network_security_config_xml = Inr fs2"
      by (auto simp: write_file_def split: option.splits node.splits)
    with mk show ?thesis
      unfolding add_network_security_config_def Let_def
      by (auto simp: bnd_fs_op fs_op_def)
  qed
  from written total policy_base_system policy_base_user policy_debug_user show ?thesis by blast
qed

theorem network_security_config_written_witness:
  "fst (add_network_security_config base_dir decompiled_world) = Inr ()
   \<and> read_file (files (snd (add_network_security_config base_dir decompiled_world)))
        (base_dir @ [''res'', ''xml'', ''network_security_config.xml''])
       = Inr network_security_config_xml"
proof -
  let ?fs1 = "files decompiled_world @ [(base_dir @ [''res''], Dir), (base_dir @ [''res'', ''xml''], Dir)]"
  have mk: "mkdir_parents (files decompiled_world) (base_dir @ [''res'', ''xml'']) = Inr ?fs1"
    by (simp add: mkdir_parents_def base_dir_def decompiled_world_def lookup_def)
  have nd: "lookup ?fs1 (base_dir @ [''res'', ''xml'', ''network_security_config.xml'']) \<noteq> Some Dir"
    by (simp add: base_dir_def decompiled_world_def lookup_def)
  note written = network_security_config_written [of base_dir decompiled_world]
  from written mk nd have ok: "fst (add_network_security_config base_dir decompiled_world) = Inr ()"
    by blast
  then have "add_network_security_config base_dir decompiled_world
      = (Inr (), snd (add_network_security_config base_dir decompiled_world))"
    by (simp add: prod_eq_iff)
  with written have "read_file (files (snd (add_network_security_config base_dir decompiled_world)))
        (base_dir @ [''res'', ''xml'', ''network_security_config.xml''])
       = Inr network_security_config_xml"
    by blast
  with ok show ?thesis by simp
qed

section \<open>Manifest patch\<close>

lemma tag_set_attr [simp]: "tag (set_attr k v e) = tag e"
  by (simp add: set_attr_def)

lemma get_attr_set_attr [simp]: "get_attr (set_attr k v e) k = Some v"
  by (simp add: get_attr_def set_attr_def update_conv')

lemma find_update:
  assumes keep: "\<And>e. tag (f e) = tag e"
  shows "find_iter t (update_iter t f e) = map_option f (find_iter t e)"
    and "find_first t (update_first t f es) = map_option f (find_first t es)"
proof (induction t e and t es rule: find_iter_find_first.induct)
  case (1 t g a cs)
  show ?case
  proof (cases "g = t")
    case True
    have "tag (f (Element g a cs)) = t" using keep [of "Element g a cs"] True by simp
    then show ?thesis using True by (cases "f (Element g a cs)") simp
  next
    case False
    with 1 show ?thesis by simp
  qed
next
  case (2 t)
  show ?case by simp
next
  case (3 t c cs)
  show ?case
  proof (cases "find_iter t c")
    case None
    with 3 show ?thesis by simp
  next
    case (Some e)
    with 3 show ?thesis by simp
  qed
qed

lemma find_descendant_update:
  "(\<And>e. tag (f e) = tag e) \<Longrightarrow>
     find_descendant t (update_descendant t f root) = map_option f (find_descendant t root)"
  by (simp add: find_descendant_def update_descendant_def find_update(2))

lemma patch_manifest_present:
  assumes "read_file (files w) (d @ [''AndroidManifest.xml'']) = Inr text"
    and "xml_parse E text = Some root"
    and "find_descendant ''application'' root = Some app"
    and "get_attr app networkSecurityConfig \<noteq> None"
  shows "patch_manifest E d w = (Inr (), w)"
  using assms
  by (auto simp: patch_manifest_def Let_def bnd_def lift_result_def require_def ok_def)

text \<open>
  Claim C3. When the application element found in the manifest already has the
  \<open>networkSecurityConfig\<close> attribute of the Android namespace, \<open>patch_manifest\<close> returns with
  the world unchanged: nothing is written. Hence a second application after a first is a
  no-op, given that the XML library parses the document it has just written back to the
  tree it wrote.
\<close>

theorem patch_manifest_idempotent:
  "(\<forall>src root app.
       read_file (files w) (d @ [''AndroidManifest.xml'']) = Inr src
       \<and> xml_parse E src = Some root
       \<and> find_descendant ''application'' root = Some app
       \<and> get_attr app networkSecurityConfig \<noteq> None
     \<longrightarrow> patch_manifest E d w = (Inr (), w))
   \<and> (\<forall>w1. patch_manifest E d w = (Inr (), w1)
         \<and> (\<forall>src root. read_file (files w) (d @ [''AndroidManifest.xml'']) = Inr src
                \<and> xml_parse E src = Some root
              \<longrightarrow> xml_parse E (xml_write E (patched_root root)) = Some (patched_root root))
       \<longrightarrow> patch_manifest E d w1 = (Inr (), w1))"
proof -
  let ?mp = "d @ [''AndroidManifest.xml'']"
  have second: "patch_manifest E d w1 = (Inr (), w1)"
    if run: "patch_manifest E d w = (Inr (), w1)"
      and rt: "\<forall>src root. read_file (files w) ?mp = Inr src \<and> xml_parse E src = Some root
              \<longrightarrow> xml_parse E (xml_write E (patched_root root)) = Some (patched_root root)"
    for w1
  proof -
    from run obtain src where rd: "read_file (files w) ?mp = Inr src"
      by (cases "read_file (files w) ?mp")
         (auto simp: patch_manifest_def Let_def bnd_def lift_result_def)
    from run rd obtain root where pr: "xml_parse E src = Some root"
      by (cases "xml_parse E src")
         (auto simp: patch_manifest_def Let_def bnd_def lift_result_def require_def raise_def)
    from run rd pr obtain app where fd: "find_descendant ''application'' root = Some app"
      by (cases "find_descendant ''application'' root")
         (auto simp: patch_manifest_def Let_def bnd_def lift_result_def require_def raise_def)
    show ?thesis
    proof (cases "get_attr app networkSecurityConfig")
      case (Some v)
      with rd pr fd have "patch_manifest E d w = (Inr (), w)"
        by (intro patch_manifest_present) auto
      with run show ?thesis by simp
    next
      case None
      with run rd pr fd obtain fs' where
        wr: "write_file (files w) ?mp (xml_write E (patched_root root)) = Inr fs'"
        and w1: "w1 = w\<lparr>files := fs'\<rparr>"
        by (auto simp: patch_manifest_def Let_def bnd_def lift_result_def require_def raise_def
                 fs_op_def patched_root_def split: sum.splits)
      from write_file_read [OF wr] w1
      have rd1: "read_file (files w1) ?mp = Inr (xml_write E (patched_root root))" by simp
      from rt rd pr have pr1: "xml_parse E (xml_write E (patched_root root)) = Some (patched_root root)"
        by blast
      have fd1: "find_descendant ''application'' (patched_root root)
          = Some (set_attr networkSecurityConfig ''@xml/network_security_config'' app)"
        unfolding patched_root_def by (simp add: find_descendant_update fd)
      show ?thesis
        by (rule patch_manifest_present [OF rd1 pr1 fd1]) simp
    qed
  qed
  from patch_manifest_present second show ?thesis by blast
qed

theorem patch_manifest_idempotent_witness:
  "fst (patch_manifest manifest_env base_dir decompiled_world) = Inr ()
   \<and> patch_manifest manifest_env base_dir (snd (patch_manifest manifest_env base_dir decompiled_world))
       = (Inr (), snd (patch_manifest manifest_env base_dir decompiled_world))
   \<and> read_file (files (snd (patch_manifest manifest_env base_dir decompiled_world)))
        (base_dir @ [''AndroidManifest.xml'']) = Inr ''W''"
proof -
  let ?w1 = "snd (patch_manifest manifest_env base_dir decompiled_world)"
  have ok: "fst (patch_manifest manifest_env base_dir decompiled_world) = Inr ()"
    by code_simp
  then have run: "patch_manifest manifest_env base_dir decompiled_world = (Inr (), ?w1)"
    by (simp add: prod_eq_iff)
  have rd: "read_file (files ?w1) (base_dir @ [''AndroidManifest.xml'']) = Inr ''W''"
    by code_simp
  have rt: "\<forall>src root. read_file (files decompiled_world) (base_dir @ [''AndroidManifest.xml'']) = Inr src
                \<and> xml_parse manifest_env src = Some root
              \<longrightarrow> xml_parse manifest_env (xml_write manifest_env (patched_root root)) = Some (patched_root root)"
    by (simp add: decompiled_world_def base_dir_def read_file_def lookup_def manifest_env_def
          example_env_def patched_root_def)
  from patch_manifest_idempotent [of decompiled_world base_dir manifest_env] run rt
  have "patch_manifest manifest_env base_dir ?w1 = (Inr (), ?w1)" by blast
  with ok rd show ?thesis by blast
qed

section \<open>Package extractor: the local package directory\<close>

text \<open>
  Claim C2 as stated fails: \<open>pull_package\<close> creates the local directory with
  \<open>exist_ok=True\<close> and never empties it, so a file left there by an earlier run stays
  beside the pulled ones. Here the device reports one path and the directory ends with
  two entries.
\<close>

theorem pull_package_stale_counterexample:
  "shell_lines one_split_env (''pm path '' @ ''com.x'') = Some [''package:/data/app/x/base.apk'']
   \<and> fst (pull_package one_split_env ''com.x'' (join PACKAGES_DIR ''com.x'') stale_world) = Inr ()
   \<and> entries (files (snd (pull_package one_split_env ''com.x'' (join PACKAGES_DIR ''com.x'') stale_world)))
        (join PACKAGES_DIR ''com.x'') = [''old.apk'', ''base.apk'']"
  by code_simp

lemma after_colon_remote: "after_colon l = Some p \<Longrightarrow> p = remote_path l"
  by (auto simp: after_colon_def remote_path_def split: if_splits)

lemma keys_filter_map:
  "map (\<lambda>(q, n). last q) (filter (\<lambda>(q, n). P q) fs) = map last (filter P (map fst fs))"
  by (induction fs) auto

lemma entries_keys:
  "entries fs d = remdups (map last (filter (\<lambda>q. q \<noteq> [] \<and> butlast q = d) (map fst fs)))"
  unfolding entries_def by (simp add: keys_filter_map)

lemma child_iff: "q \<noteq> [] \<and> butlast q = d \<longleftrightarrow> (\<exists>n. q = d @ [n])"
proof
  assume "q \<noteq> [] \<and> butlast q = d"
  then have "q = d @ [last q]" by auto
  then show "\<exists>n. q = d @ [n]" ..
next
  assume "\<exists>n. q = d @ [n]"
  then show "q \<noteq> [] \<and> butlast q = d" by auto
qed

lemma set_entries: "set (entries fs d) = {n. d @ [n] \<in> fst ` set fs}"
proof (intro set_eqI iffI)
  fix n assume "n \<in> set (entries fs d)"
  then obtain q where q: "q \<in> fst ` set fs" "q \<noteq> [] \<and> butlast q = d" "n = last q"
    unfolding entries_keys by auto
  from q(2) have "q = d @ [last q]" by auto
  with q show "n \<in> {n. d @ [n] \<in> fst ` set fs}" by simp
next
  fix n assume "n \<in> {n. d @ [n] \<in> fst ` set fs}"
  then have "d @ [n] \<in> set (filter (\<lambda>q. q \<noteq> [] \<and> butlast q = d) (map fst fs))" by simp
  then have "last (d @ [n]) \<in> set (map last (filter (\<lambda>q. q \<noteq> [] \<and> butlast q = d) (map fst fs)))"
    unfolding set_map by (rule imageI)
  then show "n \<in> set (entries fs d)" unfolding entries_keys by simp
qed

lemma remdups_snoc_new: "n \<notin> set xs \<Longrightarrow> remdups (xs @ [n]) = remdups xs @ [n]"
  by (induction xs) auto

lemma entries_update:
  "entries (AList.update (d @ [n]) v fs) d =
     (if n \<in> set (entries fs d) then entries fs d else entries fs d @ [n])"
proof (cases "d @ [n] \<in> set (map fst fs)")
  case True
  then have "n \<in> set (entries fs d)" by (simp add: set_entries)
  with True show ?thesis by (simp add: entries_keys update_keys)
next
  case False
  then have notin: "n \<notin> set (entries fs d)" by (simp add: set_entries)
  then have "n \<notin> set (map last (filter (\<lambda>q. q \<noteq> [] \<and> butlast q = d) (map fst fs)))"
    unfolding entries_keys by simp
  from remdups_snoc_new [OF this] False notin show ?thesis
    by (simp add: entries_keys update_keys)
qed

lemma is_file_update:
  "p \<noteq> [] \<Longrightarrow> is_file (AList.update p (File d) fs) q \<longleftrightarrow> q = p \<or> is_file fs q"
  by (auto simp: is_file_def lookup_update split: option.splits node.splits)

lemma mkdir_from_prefixes:
  "mkdir_from pre cs fs = Inr fs' \<Longrightarrow> lookup fs pre = Some Dir \<Longrightarrow>
     lookup fs' (pre @ take k cs) = Some Dir"
proof (induction cs arbitrary: pre fs k)
  case Nil
  then show ?case by simp
next
  case (Cons c cs)
  show ?case
  proof (cases k)
    case 0
    from mkdir_from_keeps [OF Cons.prems] show ?thesis using 0 by simp
  next
    case (Suc j)
    show ?thesis
    proof (cases "lookup fs (pre @ [c])")
      case None
      with Cons.prems(1) have run: "mkdir_from (pre @ [c]) cs (fs @ [(pre @ [c], Dir)]) = Inr fs'" by simp
      from Cons.IH [OF run lookup_snoc_new [OF None], of j] Suc show ?thesis by simp
    next
      case (Some m)
      show ?thesis
      proof (cases m)
        case (File d)
        with Some Cons.prems(1) show ?thesis by simp
      next
        case Dir
        with Some Cons.prems(1) have run: "mkdir_from (pre @ [c]) cs fs = Inr fs'" by simp
        from Some Dir have "lookup fs (pre @ [c]) = Some Dir" by simp
        from Cons.IH [OF run this, of j] Suc show ?thesis by simp
      qed
    qed
  qed
qed

lemma mkdir_from_added:
  "mkdir_from pre cs fs = Inr fs' \<Longrightarrow>
     \<exists>added. fs' = fs @ added \<and> (\<forall>q \<in> fst ` set added. \<exists>k. q = pre @ take k cs)
        \<and> (\<forall>n \<in> snd ` set added. n = Dir)"
proof (induction cs arbitrary: pre fs)
  case Nil
  then show ?case by simp
next
  case (Cons c cs)
  show ?case
  proof (cases "lookup fs (pre @ [c])")
    case None
    with Cons.prems(1) have run: "mkdir_from (pre @ [c]) cs (fs @ [(pre @ [c], Dir)]) = Inr fs'" by simp
    from Cons.IH [OF run] obtain added where
      a: "fs' = (fs @ [(pre @ [c], Dir)]) @ added"
         "\<forall>q \<in> fst ` set added. \<exists>k. q = (pre @ [c]) @ take k cs"
         "\<forall>n \<in> snd ` set added. n = Dir" by blast
    have "\<forall>q \<in> fst ` set ((pre @ [c], Dir) # added). \<exists>k. q = pre @ take k (c # cs)"
    proof
      fix q assume "q \<in> fst ` set ((pre @ [c], Dir) # added)"
      then consider "q = pre @ [c]" | "q \<in> fst ` set added" by auto
      then show "\<exists>k. q = pre @ take k (c # cs)"
      proof cases
        case 1
        then have "q = pre @ take (Suc 0) (c # cs)" by simp
        then show ?thesis ..
      next
        case 2
        with a(2) obtain k where "q = (pre @ [c]) @ take k cs" by blast
        then have "q = pre @ take (Suc k) (c # cs)" by simp
        then show ?thesis ..
      qed
    qed
    moreover from a(1) have "fs' = fs @ ((pre @ [c], Dir) # added)" by simp
    moreover from a(3) have "\<forall>n \<in> snd ` set ((pre @ [c], Dir) # added). n = Dir" by simp
    ultimately show ?thesis by blast
  next
    case (Some m)
    show ?thesis
    proof (cases m)
      case (File d)
      with Some Cons.prems(1) show ?thesis by simp
    next
      case Dir
      with Some Cons.prems(1) have run: "mkdir_from (pre @ [c]) cs fs = Inr fs'" by simp
      from Cons.IH [OF run] obtain added where
        a: "fs' = fs @ added"
           "\<forall>q \<in> fst ` set added. \<exists>k. q = (pre @ [c]) @ take k cs"
           "\<forall>n \<in> snd ` set added. n = Dir" by blast
      have "\<forall>q \<in> fst ` set added. \<exists>k. q = pre @ take k (c # cs)"
      proof
        fix q assume "q \<in> fst ` set added"
        with a(2) obtain k where "q = (pre @ [c]) @ take k cs" by blast
        then have "q = pre @ take (Suc k) (c # cs)" by simp
        then show "\<exists>k. q = pre @ take k (c # cs)" ..
      qed
      with a(1,3) show ?thesis by blast
    qed
  qed
qed

lemma take_not_child: "take k p \<noteq> p @ [n]"
proof
  assume "take k p = p @ [n]"
  then have "length (take k p) = length (p @ [n])" by simp
  then show False by simp
qed

lemma mkdir_parents_entries:
  assumes "mkdir_parents fs p = Inr fs'"
  shows "entries fs' p = entries fs p"
proof -
  from mkdir_from_added [OF assms [unfolded mkdir_parents_def]] obtain added where
    a: "fs' = fs @ added" "\<forall>q \<in> fst ` set added. \<exists>k. q = take k p" by auto
  have "\<forall>q \<in> set (map fst added). \<not> (q \<noteq> [] \<and> butlast q = p)"
  proof
    fix q assume "q \<in> set (map fst added)"
    then have "q \<in> fst ` set added" by simp
    with a(2) obtain k where k: "q = take k p" by blast
    show "\<not> (q \<noteq> [] \<and> butlast q = p)"
    proof
      assume "q \<noteq> [] \<and> butlast q = p"
      then have "q = p @ [last q]" by auto
      with k have "take k p = p @ [last q]" by simp
      then show False by (simp add: take_not_child)
    qed
  qed
  then have "filter (\<lambda>q. q \<noteq> [] \<and> butlast q = p) (map fst added) = []"
    unfolding filter_empty_conv by blast
  with a(1) show ?thesis by (simp add: entries_keys)
qed

lemma mkdir_parents_is_file:
  assumes "mkdir_parents fs p = Inr fs'" and "is_file fs q"
  shows "is_file fs' q"
proof -
  from assms(2) obtain d where "lookup fs q = Some (File d)"
    by (auto simp: is_file_def split: option.splits node.splits)
  from mkdir_from_keeps [OF assms(1) [unfolded mkdir_parents_def] this]
  show ?thesis by (simp add: is_file_def)
qed

lemma mkdir_parents_dirs:
  assumes "mkdir_parents fs p = Inr fs'"
  shows "lookup fs' p = Some Dir" and "lookup fs' (butlast p) = Some Dir"
proof -
  have root: "lookup fs [] = Some Dir" by (simp add: lookup_def)
  from mkdir_from_prefixes [OF assms [unfolded mkdir_parents_def] root, of "length p"]
  show "lookup fs' p = Some Dir" by simp
  from mkdir_from_prefixes [OF assms [unfolded mkdir_parents_def] root, of "length p - 1"]
  show "lookup fs' (butlast p) = Some Dir" by (simp add: butlast_conv_take)
qed

lemma sync_pull_success:
  assumes "sync_pull E src dst w = (Inr (), w1)"
  shows "\<exists>d. remote_file E src = Some d \<and> lookup (files w) dst \<noteq> Some Dir
           \<and> w1 = w\<lparr>trace := trace w @ [SyncPull src dst],
                      files := AList.update dst (File d) (files w)\<rparr>"
  using assms unfolding sync_pull_def
  by (cases "remote_file E src")
     (auto simp: raise_def fs_op_def write_file_def split: sum.splits option.splits node.splits)

lemma join_cases: "join d n = d \<or> join d n = butlast d \<or> (join d n = d @ [n])"
  by (simp add: join_def)

lemma pull_all_entries:
  assumes "pull_all E out apks w = (Inr (), w')"
    and "lookup (files w) out = Some Dir" and "lookup (files w) (butlast out) = Some Dir"
  shows "lookup (files w') out = Some Dir \<and> lookup (files w') (butlast out) = Some Dir
    \<and> (\<forall>q. is_file (files w) q \<longrightarrow> is_file (files w') q)
    \<and> set (entries (files w') out) = set (entries (files w) out) \<union> local_name ` set apks
    \<and> (\<forall>l \<in> set apks. is_file (files w') (out @ [local_name l]))
    \<and> (distinct (map local_name apks)
         \<and> set (map local_name apks) \<inter> set (entries (files w) out) = {}
       \<longrightarrow> entries (files w') out = entries (files w) out @ map local_name apks)"
  using assms
proof (induction apks arbitrary: w)
  case Nil
  then show ?case by (simp add: ok_def)
next
  case (Cons x xs)
  from Cons.prems(1) obtain p where ac: "after_colon x = Some p"
    by (cases "after_colon x") (auto simp: raise_def)
  have p: "p = remote_path x" by (rule after_colon_remote [OF ac])
  let ?n = "local_name x"
  from Cons.prems(1) ac p
  have "bnd (sync_pull E p (join out ?n)) (\<lambda>_. pull_all E out xs) w = (Inr (), w')"
    by (simp add: local_name_def)
  from bnd_cases [OF this] obtain w1 where
    s1: "sync_pull E p (join out ?n) w = (Inr (), w1)" and rest: "pull_all E out xs w1 = (Inr (), w')"
    by auto
  from sync_pull_success [OF s1] obtain d where
    nd: "lookup (files w) (join out ?n) \<noteq> Some Dir"
    and w1: "w1 = w\<lparr>trace := trace w @ [SyncPull p (join out ?n)],
                     files := AList.update (join out ?n) (File d) (files w)\<rparr>"
    by blast
  from nd Cons.prems(2,3) join_cases [of out ?n] have j: "join out ?n = out @ [?n]" by auto
  have f1: "files w1 = AList.update (out @ [?n]) (File d) (files w)" using w1 j by simp
  have ne: "out @ [?n] \<noteq> butlast out"
  proof
    assume "out @ [?n] = butlast out"
    then have "length (out @ [?n]) = length (butlast out)" by simp
    then show False by simp
  qed
  have d1: "lookup (files w1) out = Some Dir" "lookup (files w1) (butlast out) = Some Dir"
    using Cons.prems(2,3) ne by (simp_all add: f1 lookup_update)
  note IH = Cons.IH [OF rest d1]
  have e1: "entries (files w1) out =
      (if ?n \<in> set (entries (files w) out) then entries (files w) out else entries (files w) out @ [?n])"
    by (simp add: f1 entries_update)
  have keep1: "is_file (files w1) q" if "is_file (files w) q" for q
    using that by (simp add: f1 is_file_update)
  have new1: "is_file (files w1) (out @ [?n])" by (simp add: f1 is_file_update)
  have A: "lookup (files w') out = Some Dir \<and> lookup (files w') (butlast out) = Some Dir"
    using IH by blast
  have B: "\<forall>q. is_file (files w) q \<longrightarrow> is_file (files w') q"
    using IH keep1 by blast
  have C: "set (entries (files w') out) = set (entries (files w) out) \<union> local_name ` set (x # xs)"
  proof -
    from IH have "set (entries (files w') out) = set (entries (files w1) out) \<union> local_name ` set xs"
      by blast
    with e1 show ?thesis by auto
  qed
  have D: "\<forall>l \<in> set (x # xs). is_file (files w') (out @ [local_name l])"
    using IH new1 by auto
  have E: "entries (files w') out = entries (files w) out @ map local_name (x # xs)"
    if dis: "distinct (map local_name (x # xs))"
      and disj: "set (map local_name (x # xs)) \<inter> set (entries (files w) out) = {}"
  proof -
    from disj have "?n \<notin> set (entries (files w) out)" by auto
    with e1 have e1': "entries (files w1) out = entries (files w) out @ [?n]" by simp
    from dis disj have "distinct (map local_name xs)
        \<and> set (map local_name xs) \<inter> set (entries (files w1) out) = {}"
      unfolding e1' by auto
    with IH have "entries (files w') out = entries (files w1) out @ map local_name xs" by blast
    with e1' show ?thesis by simp
  qed
  from A B C D E show ?case by blast
qed

text \<open>
  Claim C2, amended. After a successful extraction every reported line has a colon, the
  local package directory holds a regular file named by the basename of each reported
  remote path, and its entries are those basenames together with the entries it had
  before. When it had no entry before and the basenames are pairwise distinct, its
  entries are exactly the basenames, one per reported path, in the order reported.
\<close>

theorem pull_package_directory:
  assumes lines: "shell_lines E (''pm path '' @ pkg) = Some apks"
    and run: "pull_package E pkg out w = (Inr (), w')"
  shows "set (entries (files w') out) = set (entries (files w) out) \<union> local_name ` set apks
    \<and> (\<forall>l \<in> set apks. CHR '':'' \<in> set l \<and> is_file (files w') (out @ [local_name l]))
    \<and> (entries (files w) out = [] \<and> distinct (map local_name apks)
         \<longrightarrow> entries (files w') out = map local_name apks)"
proof -
  have ne: "apks \<noteq> []"
  proof
    assume "apks = []"
    with lines run show False by (simp add: pull_package_def raise_def)
  qed
  note eq = pull_package_lines [OF lines ne, of out]
  let ?w0 = "w\<lparr>trace := trace w @ [Shell (''pm path '' @ pkg)]\<rparr>"
  from run obtain fs1 where mk: "mkdir_parents (files w) out = Inr fs1"
    and rest: "pull_all E out apks (?w0\<lparr>files := fs1\<rparr>) = (Inr (), w')"
    by (cases "mkdir_parents (files w) out") (auto simp: eq bnd_fs_op)
  have dirs: "lookup (files (?w0\<lparr>files := fs1\<rparr>)) out = Some Dir"
             "lookup (files (?w0\<lparr>files := fs1\<rparr>)) (butlast out) = Some Dir"
    using mkdir_parents_dirs [OF mk] by simp_all
  note P = pull_all_entries [OF rest dirs]
  have ent: "entries (files (?w0\<lparr>files := fs1\<rparr>)) out = entries (files w) out"
    using mkdir_parents_entries [OF mk] by simp
  have colon: "CHR '':'' \<in> set l" if "l \<in> set apks" for l
  proof (rule ccontr)
    assume "CHR '':'' \<notin> set l"
    from pull_all_bad_line [OF that this rest] show False by simp
  qed
  from P ent colon show ?thesis by auto
qed

theorem pull_package_directory_witness:
  "shell_lines example_env (''pm path '' @ ''com.x'')
      = Some [''package:/data/app/x/base.apk'', ''package:/data/app/x/split.apk'']
   \<and> fst (pull_package example_env ''com.x'' (join PACKAGES_DIR ''com.x'') example_world) = Inr ()
   \<and> entries (files (snd (pull_package example_env ''com.x'' (join PACKAGES_DIR ''com.x'') example_world)))
        (join PACKAGES_DIR ''com.x'') = [''base.apk'', ''split.apk'']"
proof -
  let ?out = "join PACKAGES_DIR ''com.x''"
  let ?apks = "[''package:/data/app/x/base.apk'', ''package:/data/app/x/split.apk'']"
  let ?r = "pull_package example_env ''com.x'' ?out example_world"
  have h: "shell_lines example_env (''pm path '' @ ''com.x'') = Some ?apks"
    by (simp add: example_env_def)
  have ok: "fst ?r = Inr ()" by code_simp
  then have run: "?r = (Inr (), snd ?r)" by (simp add: prod_eq_iff)
  have e0: "entries (files example_world) ?out = []" by code_simp
  have names: "map local_name ?apks = [''base.apk'', ''split.apk'']" by code_simp
  then have dis: "distinct (map local_name ?apks)" by simp
  from pull_package_directory [OF h run] e0 dis names
  have "entries (files (snd ?r)) ?out = [''base.apk'', ''split.apk'']" by simp
  with h ok show ?thesis by blast
qed

section \<open>Runs that differ only below the patched-output directory\<close>

lemma map_of_filter_key:
  "map_of (filter (\<lambda>(q, n). P q) fs) k = (if P k then map_of fs k else None)"
  by (induction fs) auto

lemma lookup_outside:
  "\<not> strict_prefix d q \<Longrightarrow> lookup (outside d fs) q = lookup fs q"
  by (simp add: lookup_def outside_def map_of_filter_key)

lemma outside_lookup_eq:
  "outside d f = outside d g \<Longrightarrow> \<not> strict_prefix d q \<Longrightarrow> lookup f q = lookup g q"
  by (metis lookup_outside)

lemma filter_update_key:
  "P k \<Longrightarrow> filter (\<lambda>(q, n). P q) (AList.update k v fs) = AList.update k v (filter (\<lambda>(q, n). P q) fs)"
  by (induction fs) auto

lemma outside_update:
  "\<not> strict_prefix d p \<Longrightarrow> outside d (AList.update p v fs) = AList.update p v (outside d fs)"
  unfolding outside_def by (rule filter_update_key)

lemma outside_append: "outside d (fs @ gs) = outside d fs @ outside d gs"
  by (simp add: outside_def)

lemma not_strict_butlast: "\<not> strict_prefix d p \<Longrightarrow> \<not> strict_prefix d (butlast p)"
proof
  assume n: "\<not> strict_prefix d p" and s: "strict_prefix d (butlast p)"
  have "prefix (butlast p) p" by (simp add: prefixeq_butlast)
  with s have "strict_prefix d p" by (meson strict_prefix_def prefix_order.dual_order.strict_trans1)
  with n show False by simp
qed

lemma remove_tree_outside: "remove_tree (outside d fs) d = remove_tree fs d"
  unfolding remove_tree_def outside_def
  by (induction fs) (auto simp: strict_prefix_def)

lemma write_file_outside:
  assumes "outside d f = outside d g" and "\<not> strict_prefix d p"
  shows "(\<exists>e. write_file f p c = Inl e \<and> write_file g p c = Inl e)
       \<or> (\<exists>f' g'. write_file f p c = Inr f' \<and> write_file g p c = Inr g' \<and> outside d f' = outside d g')"
proof -
  have l: "lookup f p = lookup g p" by (rule outside_lookup_eq [OF assms])
  have b: "lookup f (butlast p) = lookup g (butlast p)"
    by (rule outside_lookup_eq [OF assms(1) not_strict_butlast [OF assms(2)]])
  have pc: "parent_check f p = parent_check g p" by (simp add: parent_check_def b)
  show ?thesis
  proof (cases "write_file f p c")
    case (Inl e)
    then have "write_file g p c = Inl e"
      by (auto simp: write_file_def l [symmetric] pc [symmetric] split: option.splits node.splits)
    with Inl show ?thesis by simp
  next
    case (Inr f')
    then have f': "f' = AList.update p (File c) f"
      by (auto simp: write_file_def split: option.splits node.splits)
    from Inr have "write_file g p c = Inr (AList.update p (File c) g)"
      by (auto simp: write_file_def l [symmetric] pc [symmetric] split: option.splits node.splits)
    moreover have "outside d f' = outside d (AList.update p (File c) g)"
      by (simp add: f' outside_update [OF assms(2)] assms(1))
    ultimately show ?thesis using Inr by simp
  qed
qed

lemma mkdir_from_outside:
  assumes "outside d f = outside d g" and "\<forall>k. \<not> strict_prefix d (pre @ take k cs)"
  shows "(\<exists>e. mkdir_from pre cs f = Inl e \<and> mkdir_from pre cs g = Inl e)
       \<or> (\<exists>f' g'. mkdir_from pre cs f = Inr f' \<and> mkdir_from pre cs g = Inr g' \<and> outside d f' = outside d g')"
  using assms
proof (induction cs arbitrary: pre f g)
  case Nil
  then show ?case by simp
next
  case (Cons c cs)
  from Cons.prems(2) [rule_format, of "Suc 0"] have ns: "\<not> strict_prefix d (pre @ [c])" by simp
  have l: "lookup f (pre @ [c]) = lookup g (pre @ [c])"
    by (rule outside_lookup_eq [OF Cons.prems(1) ns])
  have nxt: "\<forall>k. \<not> strict_prefix d ((pre @ [c]) @ take k cs)"
  proof
    fix k from Cons.prems(2) [rule_format, of "Suc k"]
    show "\<not> strict_prefix d ((pre @ [c]) @ take k cs)" by simp
  qed
  show ?case
  proof (cases "lookup g (pre @ [c])")
    case None
    have "outside d (f @ [(pre @ [c], Dir)]) = outside d (g @ [(pre @ [c], Dir)])"
      by (simp add: outside_append Cons.prems(1))
    from Cons.IH [OF this nxt] None l show ?thesis by simp
  next
    case (Some m)
    show ?thesis
    proof (cases m)
      case (File x)
      with Some l show ?thesis by simp
    next
      case Dir
      from Cons.IH [OF Cons.prems(1) nxt] Some Dir l show ?thesis by simp
    qed
  qed
qed

lemma agree_write:
  assumes "agree d w v" and "\<not> strict_prefix d p"
  shows "fst (fs_op (\<lambda>fs. write_file fs p c) w) = fst (fs_op (\<lambda>fs. write_file fs p c) v)
       \<and> agree d (snd (fs_op (\<lambda>fs. write_file fs p c) w)) (snd (fs_op (\<lambda>fs. write_file fs p c) v))"
  using assms write_file_outside [of d "files w" "files v" p c]
  by (auto simp: agree_def fs_op_def)

lemma agree_sync_pull:
  assumes "agree d w v" and "\<not> strict_prefix d dst"
  shows "fst (sync_pull E src dst w) = fst (sync_pull E src dst v)
       \<and> agree d (snd (sync_pull E src dst w)) (snd (sync_pull E src dst v))"
proof (cases "remote_file E src")
  case None
  with assms(1) show ?thesis by (simp add: sync_pull_def raise_def agree_def)
next
  case (Some c)
  let ?w = "w\<lparr>trace := trace w @ [SyncPull src dst]\<rparr>"
  let ?v = "v\<lparr>trace := trace v @ [SyncPull src dst]\<rparr>"
  from assms(1) have "agree d ?w ?v" by (simp add: agree_def)
  from agree_write [OF this assms(2), of c] Some show ?thesis
    by (simp add: sync_pull_def)
qed

lemma agree_bnd:
  assumes "fst (m w) = fst (m v)" and "agree d (snd (m w)) (snd (m v))"
    and "\<And>x w1 v1. agree d w1 v1 \<Longrightarrow> fst (f x w1) = fst (f x v1) \<and> agree d (snd (f x w1)) (snd (f x v1))"
  shows "fst (bnd m f w) = fst (bnd m f v) \<and> agree d (snd (bnd m f w)) (snd (bnd m f v))"
proof (cases "m w")
  case (Pair r w1)
  obtain r' v1 where mv: "m v = (r', v1)" by (cases "m v")
  with Pair assms(1,2) have r: "r' = r" and a: "agree d w1 v1" by simp_all
  show ?thesis
  proof (cases r)
    case (Inl e)
    with Pair mv r a show ?thesis by (simp add: bnd_def)
  next
    case (Inr x)
    with Pair mv r assms(3) [OF a, of x] show ?thesis by (simp add: bnd_def)
  qed
qed

lemma agree_pull_all:
  assumes "agree d w v" and "\<forall>n. \<not> strict_prefix d (join out n)"
  shows "fst (pull_all E out apks w) = fst (pull_all E out apks v)
       \<and> agree d (snd (pull_all E out apks w)) (snd (pull_all E out apks v))"
  using assms(1)
proof (induction apks arbitrary: w v)
  case Nil
  then show ?case by (simp add: ok_def)
next
  case (Cons x xs)
  show ?case
  proof (cases "after_colon x")
    case None
    with Cons.prems show ?thesis by (simp add: raise_def)
  next
    case (Some p)
    have "fst (bnd (sync_pull E p (join out (path_name p))) (\<lambda>_. pull_all E out xs) w)
        = fst (bnd (sync_pull E p (join out (path_name p))) (\<lambda>_. pull_all E out xs) v)
      \<and> agree d (snd (bnd (sync_pull E p (join out (path_name p))) (\<lambda>_. pull_all E out xs) w))
                 (snd (bnd (sync_pull E p (join out (path_name p))) (\<lambda>_. pull_all E out xs) v))"
    proof (rule agree_bnd)
      from agree_sync_pull [OF Cons.prems assms(2) [rule_format], of E p "path_name p"]
      show "fst (sync_pull E p (join out (path_name p)) w) = fst (sync_pull E p (join out (path_name p)) v)"
        and "agree d (snd (sync_pull E p (join out (path_name p)) w))
                     (snd (sync_pull E p (join out (path_name p)) v))"
        by simp_all
    next
      fix u :: unit and w1 v1 assume "agree d w1 v1"
      from Cons.IH [OF this]
      show "fst (pull_all E out xs w1) = fst (pull_all E out xs v1)
            \<and> agree d (snd (pull_all E out xs w1)) (snd (pull_all E out xs v1))" .
    qed
    with Some show ?thesis by simp
  qed
qed

lemma agree_mkdir_parents:
  assumes "agree d w v" and "\<forall>k. \<not> strict_prefix d (take k out)"
  shows "fst (fs_op (\<lambda>fs. mkdir_parents fs out) w) = fst (fs_op (\<lambda>fs. mkdir_parents fs out) v)
       \<and> agree d (snd (fs_op (\<lambda>fs. mkdir_parents fs out) w)) (snd (fs_op (\<lambda>fs. mkdir_parents fs out) v))"
proof -
  from assms(2) have "\<forall>k. \<not> strict_prefix d ([] @ take k out)" by simp
  from mkdir_from_outside [OF _ this, of "files w" "files v"] assms(1)
  show ?thesis by (auto simp: agree_def fs_op_def mkdir_parents_def)
qed

lemma agree_pull_package:
  assumes "agree d w v" and "\<forall>n. \<not> strict_prefix d (join out n)"
    and "\<forall>k. \<not> strict_prefix d (take k out)"
  shows "fst (pull_package E pkg out w) = fst (pull_package E pkg out v)
       \<and> agree d (snd (pull_package E pkg out w)) (snd (pull_package E pkg out v))"
proof (cases "shell_lines E (''pm path '' @ pkg)")
  case None
  with assms(1) show ?thesis by (simp add: pull_package_def raise_def agree_def)
next
  case (Some apks)
  show ?thesis
  proof (cases "apks = []")
    case True
    with Some assms(1) show ?thesis by (simp add: pull_package_def raise_def agree_def)
  next
    case False
    let ?w = "w\<lparr>trace := trace w @ [Shell (''pm path '' @ pkg)]\<rparr>"
    let ?v = "v\<lparr>trace := trace v @ [Shell (''pm path '' @ pkg)]\<rparr>"
    from assms(1) have a: "agree d ?w ?v" by (simp add: agree_def)
    have "fst (bnd (fs_op (\<lambda>fs. mkdir_parents fs out)) (\<lambda>_. pull_all E out apks) ?w)
        = fst (bnd (fs_op (\<lambda>fs. mkdir_parents fs out)) (\<lambda>_. pull_all E out apks) ?v)
      \<and> agree d (snd (bnd (fs_op (\<lambda>fs. mkdir_parents fs out)) (\<lambda>_. pull_all E out apks) ?w))
                 (snd (bnd (fs_op (\<lambda>fs. mkdir_parents fs out)) (\<lambda>_. pull_all E out apks) ?v))"
    proof (rule agree_bnd)
      from agree_mkdir_parents [OF a assms(3)]
      show "fst (fs_op (\<lambda>fs. mkdir_parents fs out) ?w) = fst (fs_op (\<lambda>fs. mkdir_parents fs out) ?v)"
        and "agree d (snd (fs_op (\<lambda>fs. mkdir_parents fs out) ?w)) (snd (fs_op (\<lambda>fs. mkdir_parents fs out) ?v))"
        by simp_all
    next
      fix u :: unit and w1 v1 assume "agree d w1 v1"
      from agree_pull_all [OF this assms(2)]
      show "fst (pull_all E out apks w1) = fst (pull_all E out apks v1)
            \<and> agree d (snd (pull_all E out apks w1)) (snd (pull_all E out apks v1))" .
    qed
    then show ?thesis by (simp add: pull_package_lines [OF Some False])
  qed
qed

lemma reset_output_success:
  assumes "reset_output d w = (Inr (), w1)"
  shows "w1 = w\<lparr>files := remove_tree (files w) d @ [(d, Dir)]\<rparr>" and "d \<noteq> []"
proof -
  from assms have mk: "mkdir (rmtree_ignore_errors (files w) d) d
      = Inr (files w1)" and tr: "w1 = w\<lparr>files := files w1\<rparr>"
    by (auto simp: reset_output_def bnd_fs_op fs_op_def split: sum.splits)
  from mk show ne: "d \<noteq> []" by (auto simp: mkdir_def lookup_def split: option.splits if_splits)
  have "rmtree_ignore_errors (files w) d = remove_tree (files w) d"
  proof (cases "lookup (files w) d")
    case None
    then show ?thesis by (simp add: rmtree_ignore_errors_def)
  next
    case (Some n)
    show ?thesis
    proof (cases n)
      case (File c)
      with Some have "rmtree_ignore_errors (files w) d = files w" by (simp add: rmtree_ignore_errors_def)
      with mk Some show ?thesis by (simp add: mkdir_def)
    next
      case Dir
      with Some show ?thesis by (simp add: rmtree_ignore_errors_def)
    qed
  qed
  with mk have "files w1 = remove_tree (files w) d @ [(d, Dir)]"
    by (auto simp: mkdir_def split: option.splits)
  with tr show "w1 = w\<lparr>files := remove_tree (files w) d @ [(d, Dir)]\<rparr>" by simp
qed

lemma remove_tree_no_key: "q \<in> fst ` set (remove_tree fs d) \<Longrightarrow> \<not> prefix d q"
  by (auto simp: remove_tree_def)

lemma reset_output_empty:
  assumes "reset_output d w = (Inr (), w1)"
  shows "lookup (files w1) d = Some Dir" and "entries (files w1) d = []"
    and "subtree (files w1) d = []" and "glob_apk (files w1) d = []"
proof -
  note f = reset_output_success [OF assms]
  have nk: "\<And>q. q \<in> fst ` set (files w1) \<Longrightarrow> \<not> strict_prefix d q"
  proof -
    fix q assume "q \<in> fst ` set (files w1)"
    then have "q = d \<or> q \<in> fst ` set (remove_tree (files w) d)" by (auto simp: f(1))
    then show "\<not> strict_prefix d q"
      using remove_tree_no_key by (auto simp: strict_prefix_def)
  qed
  have "map_of (remove_tree (files w) d) d = None"
    by (simp add: remove_tree_def map_of_filter_key)
  then show "lookup (files w1) d = Some Dir"
    using f(2) by (simp add: f(1) lookup_def map_add_def)
  have "set (entries (files w1) d) = {}"
  proof -
    have "\<And>n. d @ [n] \<notin> fst ` set (files w1)"
    proof
      fix n assume "d @ [n] \<in> fst ` set (files w1)"
      from nk [OF this] show False by (simp add: strict_prefix_def)
    qed
    then show ?thesis by (simp add: set_entries)
  qed
  then show e: "entries (files w1) d = []" by simp
  have "filter (\<lambda>(q, n). strict_prefix d q) (files w1) = []"
    unfolding filter_empty_conv using nk by force
  then show "subtree (files w1) d = []" by (simp add: subtree_def)
  from e show "glob_apk (files w1) d = []" by (simp add: glob_apk_def split: option.splits node.splits)
qed

lemma agree_reset_output:
  assumes "agree d w v"
  shows "fst (reset_output d w) = fst (reset_output d v)
       \<and> agree d (snd (reset_output d w)) (snd (reset_output d v))
       \<and> (fst (reset_output d w) = Inr () \<longrightarrow> snd (reset_output d w) = snd (reset_output d v))"
proof -
  from assms have tr: "trace w = trace v" and out: "outside d (files w) = outside d (files v)"
    by (simp_all add: agree_def)
  have l: "lookup (files w) d = lookup (files v) d"
    by (rule outside_lookup_eq [OF out]) simp
  show ?thesis
  proof (cases "\<exists>c. lookup (files w) d = Some (File c)")
    case True
    then obtain c where c: "lookup (files w) d = Some (File c)" by blast
    with l have c': "lookup (files v) d = Some (File c)" by simp
    from c c' assms show ?thesis
      by (simp add: reset_output_def bnd_fs_op fs_op_def rmtree_ignore_errors_def mkdir_def)
  next
    case False
    then have rw: "rmtree_ignore_errors (files w) d = remove_tree (files w) d"
      by (auto simp: rmtree_ignore_errors_def split: option.splits node.splits)
    from False l have rv: "rmtree_ignore_errors (files v) d = remove_tree (files v) d"
      by (auto simp: rmtree_ignore_errors_def split: option.splits node.splits)
    have same: "remove_tree (files w) d = remove_tree (files v) d"
      using remove_tree_outside [of d "files w"] remove_tree_outside [of d "files v"] out by simp
    have weq: "w\<lparr>files := remove_tree (files w) d\<rparr> = v\<lparr>files := remove_tree (files v) d\<rparr>"
      using tr same by (cases w, cases v) simp
    have "reset_output d w = fs_op (\<lambda>fs. mkdir fs d) (w\<lparr>files := remove_tree (files w) d\<rparr>)"
      by (simp add: reset_output_def bnd_fs_op rw)
    moreover have "reset_output d v = fs_op (\<lambda>fs. mkdir fs d) (v\<lparr>files := remove_tree (files v) d\<rparr>)"
      by (simp add: reset_output_def bnd_fs_op rv)
    ultimately have "reset_output d w = reset_output d v" using weq by simp
    then show ?thesis by (simp add: agree_def)
  qed
qed

lemma package_paths_outside:
  "\<not> strict_prefix (PATCHED_DIR @ [pkg @ ''_patched'']) (join (join PACKAGES_DIR pkg) n)"
  "\<not> strict_prefix (PATCHED_DIR @ [pkg @ ''_patched'']) (take k (join PACKAGES_DIR pkg))"
proof -
  have short: "\<not> strict_prefix (PATCHED_DIR @ [pkg @ ''_patched'']) q" if "length q \<le> 2" for q
  proof
    assume "strict_prefix (PATCHED_DIR @ [pkg @ ''_patched'']) q"
    then have "length (PATCHED_DIR @ [pkg @ ''_patched'']) < length q"
      by (metis prefix_length_less)
    with that show False by (simp add: PATCHED_DIR_def)
  qed
  have other: "\<not> strict_prefix (PATCHED_DIR @ [pkg @ ''_patched'']) (''packages'' # q)" for q
    by (simp add: PATCHED_DIR_def strict_prefix_def)
  have j: "join PACKAGES_DIR pkg = [] \<or> join PACKAGES_DIR pkg = [''packages'']
      \<or> join PACKAGES_DIR pkg = [''packages'', pkg]"
    by (simp add: join_def PACKAGES_DIR_def)
  from j show "\<not> strict_prefix (PATCHED_DIR @ [pkg @ ''_patched'']) (join (join PACKAGES_DIR pkg) n)"
  proof (elim disjE)
    assume "join PACKAGES_DIR pkg = []"
    then have "length (join (join PACKAGES_DIR pkg) n) \<le> 2" by (simp add: join_def)
    then show ?thesis by (rule short)
  next
    assume "join PACKAGES_DIR pkg = [''packages'']"
    then have "length (join (join PACKAGES_DIR pkg) n) \<le> 2" by (simp add: join_def)
    then show ?thesis by (rule short)
  next
    assume e: "join PACKAGES_DIR pkg = [''packages'', pkg]"
    have "join [''packages'', pkg] n = [''packages'', pkg] \<or> join [''packages'', pkg] n = [''packages'']
        \<or> join [''packages'', pkg] n = ''packages'' # [pkg, n]"
      by (simp add: join_def)
    then show ?thesis unfolding e using other short by (elim disjE) simp_all
  qed
  have "length (take k (join PACKAGES_DIR pkg)) \<le> 2" using j by auto
  then show "\<not> strict_prefix (PATCHED_DIR @ [pkg @ ''_patched'']) (take k (join PACKAGES_DIR pkg))"
    by (rule short)
qed

lemma pull_all_emits_when:
  "(\<And>src dst. P (SyncPull src dst)) \<Longrightarrow> emits P (pull_all E out apks)"
proof (induction apks)
  case Nil
  show ?case by (simp add: emits_ok)
next
  case (Cons x xs)
  have sp: "emits P (sync_pull E src dst)" for src dst
    unfolding sync_pull_def
    by (intro emits_bnd emits_emit emits_require emits_fs_op) (rule Cons.prems)
  show ?case
    by (cases "after_colon x") (auto intro!: emits_bnd emits_raise sp Cons.IH Cons.prems)
qed

lemma pull_package_emits_when:
  assumes "\<And>src dst. P (SyncPull src dst)" and "\<And>c. P (Shell c)" and "\<And>m. P (Print m)"
  shows "emits P (pull_package E pkg out)"
  unfolding pull_package_def
  by (intro emits_bnd emits_emit emits_require emits_fs_op emits_raise assms)
     (auto intro!: emits_bnd emits_emit emits_raise emits_fs_op pull_all_emits_when assms)

lemma agree_then_same:
  fixes m r :: "unit action"
  assumes "fst (m w) = fst (m v)" and "agree d (snd (m w)) (snd (m v))"
    and "\<And>w1 v1. agree d w1 v1 \<Longrightarrow>
           fst (r w1) = fst (r v1) \<and> agree d (snd (r w1)) (snd (r v1))
           \<and> (fst (r w1) = Inr () \<longrightarrow> snd (r w1) = snd (r v1))"
  shows "fst (bnd m (\<lambda>_. bnd r K) w) = fst (bnd m (\<lambda>_. bnd r K) v)
       \<and> trace (snd (bnd m (\<lambda>_. bnd r K) w)) = trace (snd (bnd m (\<lambda>_. bnd r K) v))
       \<and> ((\<exists>w0 w1. m w = (Inr (), w0) \<and> r w0 = (Inr (), w1))
            \<longrightarrow> snd (bnd m (\<lambda>_. bnd r K) w) = snd (bnd m (\<lambda>_. bnd r K) v))"
proof (cases "m w")
  case (Pair a w1)
  obtain b v1 where mv: "m v = (b, v1)" by (cases "m v")
  with Pair assms(1,2) have ab: "b = a" and ag: "agree d w1 v1" by simp_all
  show ?thesis
  proof (cases a)
    case (Inl e)
    with Pair mv ab ag show ?thesis by (simp add: bnd_def agree_def)
  next
    case (Inr u)
    note step = assms(3) [OF ag]
    obtain c w2 where rw: "r w1 = (c, w2)" by (cases "r w1")
    obtain c' v2 where rv: "r v1 = (c', v2)" by (cases "r v1")
    from step rw rv have cc: "c' = c" and ag2: "agree d w2 v2"
      and same: "c = Inr () \<longrightarrow> w2 = v2" by simp_all
    show ?thesis
    proof (cases c)
      case (Inl e)
      with Pair mv ab Inr rw rv cc ag2 show ?thesis by (simp add: bnd_def agree_def)
    next
      case (Inr u2)
      with same have "w2 = v2" by simp
      with Pair mv ab \<open>a = Inr u\<close> rw rv cc Inr show ?thesis by (simp add: bnd_def)
    qed
  qed
qed

section \<open>The loop over the splits\<close>

lemma keys_delete: "fst ` set (AList.delete k al) = fst ` set al - {k}"
  by (induction al) auto

lemma keys_remove_tree: "fst ` set (remove_tree fs d) = {q \<in> fst ` set fs. \<not> prefix d q}"
  by (auto simp: remove_tree_def image_iff)

lemma lookup_remove_tree:
  "lookup (remove_tree fs d) q = (if prefix d q \<and> q \<noteq> [] then None else lookup fs q)"
  by (simp add: lookup_def remove_tree_def map_of_filter_key)

lemma kids_update: "set (entries (AList.update p v fs) d) = set (entries fs d) \<union> {n. d @ [n] = p}"
  by (auto simp: set_entries dom_update)

lemma kids_delete: "set (entries (AList.delete p fs) d) = set (entries fs d) - {n. d @ [n] = p}"
  by (auto simp: set_entries keys_delete)

lemma kids_remove_tree: "set (entries (remove_tree fs (d @ [c])) d) = set (entries fs d) - {c}"
  by (auto simp: set_entries keys_remove_tree)

lemma kids_append: "set (entries (fs @ gs) d) = set (entries fs d) \<union> set (entries gs d)"
  by (auto simp: set_entries)

lemma patched_ne_repack: "t @ ''_patched.apk'' \<noteq> u @ ''.repack.apk''"
proof
  assume "t @ ''_patched.apk'' = u @ ''.repack.apk''"
  then have "rev (t @ ''_patched.apk'') = rev (u @ ''.repack.apk'')" by (rule arg_cong)
  then show False by simp
qed

lemma patched_ne_signed: "t @ ''_patched.apk'' \<noteq> u @ ''.repack-aligned-debugSigned.apk''"
proof
  assume "t @ ''_patched.apk'' = u @ ''.repack-aligned-debugSigned.apk''"
  then have "rev (t @ ''_patched.apk'') = rev (u @ ''.repack-aligned-debugSigned.apk'')"
    by (rule arg_cong)
  then show False by simp
qed

lemma patched_endswith_apk: "endswith (t @ ''_patched.apk'') ''.apk''"
  by (simp add: endswith_def)

lemma signer_output_packed:
  "signer_output (d @ [t @ ''.repack.apk'']) = d @ [t @ ''.repack-aligned-debugSigned.apk'']"
  by (simp add: signer_output_def endswith_def)

lemma longer_ne: "t @ (c # cs) \<noteq> t"
  by simp

lemma write_file_success:
  assumes "write_file fs p c = Inr fs'"
  shows "fs' = AList.update p (File c) fs" and "p \<noteq> []" and "lookup fs p \<noteq> Some Dir"
    and "lookup fs (butlast p) = Some Dir"
  using assms
  by (auto simp: write_file_def parent_check_def lookup_def split: option.splits node.splits if_splits)

lemma write_file_keeps_dirs:
  assumes "write_file fs p c = Inr fs'" and "lookup fs q = Some Dir"
  shows "lookup fs' q = Some Dir"
  using write_file_success [OF assms(1)] assms(2) by (auto simp: lookup_update)

lemma write_file_kids:
  assumes "write_file fs p c = Inr fs'"
  shows "set (entries fs' d) = set (entries fs d) \<union> {n. d @ [n] = p}"
  using write_file_success(1) [OF assms] by (simp add: kids_update)

lemma run_apktool_d_success:
  assumes "run_apktool_d E a apk out w = (Inr (), w1)"
  shows "\<exists>c t. read_file (files w) apk = Inr c \<and> apktool_d E c = Some t
      \<and> lookup (files w) out = None
      \<and> files w1 = place_tree (files w) out t
      \<and> trace w1 = trace w @ [Subprocess [''java'', ''-jar'', path_str E a, ''d'', path_str E apk,
                                            ''-o'', path_str E out, ''-s'']]"
  using assms unfolding run_apktool_d_def
  by (auto simp: raise_def split: if_splits sum.splits option.splits)

lemma run_apktool_b_success:
  assumes "run_apktool_b E a unpacked packed w = (Inr (), w1)"
  shows "\<exists>p. lookup (files w) unpacked = Some Dir
      \<and> apktool_b E (subtree (files w) unpacked) = Some p
      \<and> write_file (files w) packed p = Inr (files w1)
      \<and> trace w1 = trace w @ [Subprocess [''java'', ''-jar'', path_str E a, ''b'', path_str E unpacked,
                                            ''-o'', path_str E packed]]"
  using assms unfolding run_apktool_b_def
  by (auto simp: raise_def split: if_splits sum.splits option.splits)

lemma run_signer_success:
  assumes "run_signer E s packed w = (Inr (), w1)"
  shows "\<exists>c sgn. read_file (files w) packed = Inr c \<and> apk_signer E c = Some sgn
      \<and> write_file (files w) (signer_output packed) sgn = Inr (files w1)
      \<and> trace w1 = trace w @ [Subprocess [''java'', ''-jar'', path_str E s, ''-a'', path_str E packed]]"
  using assms unfolding run_signer_def
  by (auto simp: raise_def split: if_splits sum.splits option.splits)

lemma fs_op_success:
  assumes "fs_op f w = (Inr (), w1)"
  shows "f (files w) = Inr (files w1)" and "trace w1 = trace w"
  using assms by (auto simp: fs_op_def split: sum.splits)

lemma place_tree_kids:
  "set (entries (place_tree fs (d @ [c]) t) d) = insert c (set (entries fs d))"
  by (auto simp: set_entries place_tree_def image_iff)

lemma place_tree_keeps:
  "lookup fs q = Some n \<Longrightarrow> lookup (place_tree fs d t) q = Some n"
  unfolding place_tree_def by (rule lookup_append_keep)

lemma place_tree_dir:
  "lookup fs d = None \<Longrightarrow> lookup (place_tree fs d t) d = Some Dir"
  by (auto simp: place_tree_def lookup_def map_add_def split: if_splits option.splits)

lemma place_tree_subtree:
  "subtree (place_tree fs d t) d = subtree fs d @ filter (\<lambda>(q, n). q \<noteq> []) t"
proof -
  have "map (\<lambda>(q, n). (drop (length d) q, n))
          (filter (\<lambda>(q, n). strict_prefix d q) (map (\<lambda>(q, n). (d @ q, n)) xs)) = xs"
    if "\<forall>x \<in> set xs. fst x \<noteq> []" for xs :: filesystem
    using that by (induction xs) (auto simp: strict_prefix_def)
  then have "map (\<lambda>(q, n). (drop (length d) q, n))
          (filter (\<lambda>(q, n). strict_prefix d q)
             (map (\<lambda>(q, n). (d @ q, n)) (filter (\<lambda>(q, n). q \<noteq> []) t)))
        = filter (\<lambda>(q, n). q \<noteq> []) t"
    by (auto simp: case_prod_unfold)
  then show ?thesis by (simp add: subtree_def place_tree_def)
qed

lemma subtree_lookup:
  "q \<noteq> [] \<Longrightarrow> map_of (subtree fs d) q = lookup fs (d @ q)"
proof (induction fs)
  case Nil
  then show ?case by (simp add: subtree_def lookup_def)
next
  case (Cons x xs)
  obtain k n where x: "x = (k, n)" by (cases x)
  show ?case
  proof (cases "strict_prefix d k")
    case True
    then obtain r where r: "k = d @ r" "r \<noteq> []" by (auto simp: strict_prefix_def prefix_def)
    have sp: "strict_prefix d (d @ r)" using r(2) by (simp add: strict_prefix_def)
    from Cons have "map_of (subtree xs d) q = lookup xs (d @ q)" by simp
    with Cons.prems sp show ?thesis by (simp add: subtree_def lookup_def x r(1))
  next
    case False
    with Cons.prems have "k \<noteq> d @ q" by (auto simp: strict_prefix_def)
    with False Cons show ?thesis by (auto simp: subtree_def lookup_def x)
  qed
qed

lemma bnd_success:
  assumes "bnd m f w = (Inr x, w')"
  obtains y w1 where "m w = (Inr y, w1)" and "f y w1 = (Inr x, w')"
  using bnd_cases [OF assms] by auto

lemma take_child:
  assumes "d @ [n] = take k (d @ c # rest)"
  shows "n = c"
proof -
  from assms have "d @ [n] = d @ take (k - length d) (c # rest)"
    by (cases "k \<le> length d") (auto dest: arg_cong [where f = length])
  then have "[n] = take (k - length d) (c # rest)" by simp
  then show ?thesis by (cases "k - length d") auto
qed

lemma mkdir_parents_below_kids:
  assumes mk: "mkdir_parents fs (d @ c # rest) = Inr fs'" and ex: "c \<in> set (entries fs d)"
  shows "set (entries fs' d) = set (entries fs d)"
proof -
  from mkdir_from_added [OF mk [unfolded mkdir_parents_def]] obtain added where
    a: "fs' = fs @ added" "\<forall>q \<in> fst ` set added. \<exists>k. q = take k (d @ c # rest)" by auto
  have "set (entries added d) \<subseteq> {c}"
  proof
    fix n assume "n \<in> set (entries added d)"
    then have "d @ [n] \<in> fst ` set added" by (simp add: set_entries)
    with a(2) obtain k where "d @ [n] = take k (d @ c # rest)" by blast
    from take_child [OF this] show "n \<in> {c}" by simp
  qed
  with ex show ?thesis by (auto simp: a(1) kids_append)
qed

lemma patch_manifest_success:
  assumes "patch_manifest E u w = (Inr (), w1)"
  shows "trace w1 = trace w"
    and "files w1 = files w \<or> (\<exists>m. write_file (files w) (u @ [''AndroidManifest.xml'']) m = Inr (files w1))"
    and "\<exists>src root. read_file (files w) (u @ [''AndroidManifest.xml'']) = Inr src
           \<and> xml_parse E src = Some root
           \<and> ((\<exists>app. find_descendant ''application'' root = Some app
                   \<and> get_attr app networkSecurityConfig \<noteq> None)
                  \<and> read_file (files w1) (u @ [''AndroidManifest.xml'']) = Inr src
               \<or> read_file (files w1) (u @ [''AndroidManifest.xml'']) = Inr (xml_write E (patched_root root)))"
proof -
  let ?mp = "u @ [''AndroidManifest.xml'']"
  from assms obtain src where rd: "read_file (files w) ?mp = Inr src"
    by (cases "read_file (files w) ?mp")
       (auto simp: patch_manifest_def Let_def bnd_def lift_result_def)
  from assms rd obtain root where pr: "xml_parse E src = Some root"
    by (cases "xml_parse E src")
       (auto simp: patch_manifest_def Let_def bnd_def lift_result_def require_def raise_def)
  from assms rd pr obtain app where fd: "find_descendant ''application'' root = Some app"
    by (cases "find_descendant ''application'' root")
       (auto simp: patch_manifest_def Let_def bnd_def lift_result_def require_def raise_def)
  show "trace w1 = trace w"
    and "files w1 = files w \<or> (\<exists>m. write_file (files w) ?mp m = Inr (files w1))"
    and "\<exists>src root. read_file (files w) ?mp = Inr src \<and> xml_parse E src = Some root
           \<and> ((\<exists>app. find_descendant ''application'' root = Some app
                   \<and> get_attr app networkSecurityConfig \<noteq> None)
                  \<and> read_file (files w1) ?mp = Inr src
               \<or> read_file (files w1) ?mp = Inr (xml_write E (patched_root root)))"
  proof (atomize (full), cases "get_attr app networkSecurityConfig")
    case None
    with assms rd pr fd obtain fs' where
      wr: "write_file (files w) ?mp (xml_write E (patched_root root)) = Inr fs'"
      and w1: "w1 = w\<lparr>files := fs'\<rparr>"
      by (auto simp: patch_manifest_def Let_def bnd_def lift_result_def require_def raise_def
               fs_op_def patched_root_def split: sum.splits)
    from write_file_read [OF wr] w1 wr rd pr
    show "trace w1 = trace w
      \<and> (files w1 = files w \<or> (\<exists>m. write_file (files w) ?mp m = Inr (files w1)))
      \<and> (\<exists>src root. read_file (files w) ?mp = Inr src \<and> xml_parse E src = Some root
           \<and> ((\<exists>app. find_descendant ''application'' root = Some app
                   \<and> get_attr app networkSecurityConfig \<noteq> None)
                  \<and> read_file (files w1) ?mp = Inr src
               \<or> read_file (files w1) ?mp = Inr (xml_write E (patched_root root))))"
      by auto
  next
    case (Some v)
    with rd pr fd have "patch_manifest E u w = (Inr (), w)"
      by (intro patch_manifest_present) auto
    with assms have "w1 = w" by simp
    with rd pr fd Some
    show "trace w1 = trace w
      \<and> (files w1 = files w \<or> (\<exists>m. write_file (files w) ?mp m = Inr (files w1)))
      \<and> (\<exists>src root. read_file (files w) ?mp = Inr src \<and> xml_parse E src = Some root
           \<and> ((\<exists>app. find_descendant ''application'' root = Some app
                   \<and> get_attr app networkSecurityConfig \<noteq> None)
                  \<and> read_file (files w1) ?mp = Inr src
               \<or> read_file (files w1) ?mp = Inr (xml_write E (patched_root root))))"
      by auto
  qed
qed

lemma add_network_security_config_success:
  assumes "add_network_security_config u w = (Inr (), w1)"
  shows "trace w1 = trace w"
    and "\<exists>fs1. mkdir_parents (files w) (u @ [''res'', ''xml'']) = Inr fs1
           \<and> write_file fs1 (u @ [''res'', ''xml'', ''network_security_config.xml''])
                network_security_config_xml = Inr (files w1)"
  using assms unfolding add_network_security_config_def Let_def
  by (auto simp: bnd_fs_op fs_op_def split: sum.splits)

lemma lookup_key: "q \<noteq> [] \<Longrightarrow> lookup fs q = Some n \<Longrightarrow> q \<in> fst ` set fs"
  by (auto simp: lookup_def dest: map_of_SomeD intro: image_eqI [where x = "(q, n)"])

lemma base_patch_effect:
  assumes run: "bnd (patch_manifest E (d @ [c])) (\<lambda>_. add_network_security_config (d @ [c])) w1 = (Inr (), w2)"
    and dir: "lookup (files w1) (d @ [c]) = Some Dir"
  shows "trace w2 = trace w1"
    and "set (entries (files w2) d) = set (entries (files w1) d)"
    and "\<And>q. lookup (files w1) q = Some Dir \<Longrightarrow> lookup (files w2) q = Some Dir"
    and "\<And>q n. lookup (files w1) q = Some n \<Longrightarrow> \<not> prefix (d @ [c]) q \<Longrightarrow> lookup (files w2) q = Some n"
    and "lookup (files w2) ((d @ [c]) @ [''res'', ''xml'', ''network_security_config.xml''])
           = Some (File network_security_config_xml)"
    and "\<exists>src root. read_file (files w1) ((d @ [c]) @ [''AndroidManifest.xml'']) = Inr src
           \<and> xml_parse E src = Some root
           \<and> ((\<exists>app. find_descendant ''application'' root = Some app
                   \<and> get_attr app networkSecurityConfig \<noteq> None)
                  \<and> lookup (files w2) ((d @ [c]) @ [''AndroidManifest.xml'']) = Some (File src)
               \<or> lookup (files w2) ((d @ [c]) @ [''AndroidManifest.xml''])
                    = Some (File (xml_write E (patched_root root))))"
proof -
  let ?u = "d @ [c]"
  let ?mp = "?u @ [''AndroidManifest.xml'']"
  let ?np = "?u @ [''res'', ''xml'', ''network_security_config.xml'']"
  from run obtain u wm where pm: "patch_manifest E ?u w1 = (Inr u, wm)"
    and an: "add_network_security_config ?u wm = (Inr (), w2)"
    by (rule bnd_success)
  from pm have pm: "patch_manifest E ?u w1 = (Inr (), wm)" by simp
  note M = patch_manifest_success [OF pm]
  note N = add_network_security_config_success [OF an]
  from N(2) obtain fs1 where mk: "mkdir_parents (files wm) (?u @ [''res'', ''xml'']) = Inr fs1"
    and wr: "write_file fs1 ?np network_security_config_xml = Inr (files w2)" by blast
  show "trace w2 = trace w1" using M(1) N(1) by simp
  have cin: "c \<in> set (entries (files w1) d)"
    using lookup_key [OF _ dir] by (simp add: set_entries)
  have kidsm: "set (entries (files wm) d) = set (entries (files w1) d)"
    using M(2) by (auto simp: write_file_kids)
  have "set (entries fs1 d) = set (entries (files wm) d)"
    using mkdir_parents_below_kids [of "files wm" d c "[''res'', ''xml'']" fs1] mk cin kidsm by simp
  moreover have "set (entries (files w2) d) = set (entries fs1 d)"
    using write_file_kids [OF wr, of d] by simp
  ultimately show "set (entries (files w2) d) = set (entries (files w1) d)" using kidsm by simp
  have dirsm: "lookup (files wm) q = Some Dir" if "lookup (files w1) q = Some Dir" for q
    using M(2) that write_file_keeps_dirs by auto
  show "lookup (files w2) q = Some Dir" if "lookup (files w1) q = Some Dir" for q
    using write_file_keeps_dirs [OF wr mkdir_from_keeps [OF mk [unfolded mkdir_parents_def] dirsm [OF that]]] .
  show "lookup (files w2) q = Some n" if q: "lookup (files w1) q = Some n" and np: "\<not> prefix ?u q" for q n
  proof -
    have "q \<noteq> ?mp" "q \<noteq> ?np" using np by auto
    have "lookup (files wm) q = Some n"
    proof -
      from M(2) consider "files wm = files w1"
        | m where "write_file (files w1) ?mp m = Inr (files wm)" by blast
      then show ?thesis
      proof cases
        case 1
        with q show ?thesis by simp
      next
        case 2
        from write_file_success(1,2) [OF 2] q \<open>q \<noteq> ?mp\<close> show ?thesis
          by (simp add: lookup_update)
      qed
    qed
    from mkdir_from_keeps [OF mk [unfolded mkdir_parents_def] this]
    have "lookup fs1 q = Some n" .
    with write_file_success(1,2) [OF wr] \<open>q \<noteq> ?np\<close> show ?thesis by (simp add: lookup_update)
  qed
  from write_file_read [OF wr] show "lookup (files w2) ?np = Some (File network_security_config_xml)"
    by (auto simp: read_file_def split: option.splits node.splits)
  have keepm: "lookup (files w2) ?mp = Some (File x)" if "read_file (files wm) ?mp = Inr x" for x
  proof -
    from that have "lookup (files wm) ?mp = Some (File x)"
      by (auto simp: read_file_def split: option.splits node.splits)
    from mkdir_from_keeps [OF mk [unfolded mkdir_parents_def] this]
    have "lookup fs1 ?mp = Some (File x)" .
    with write_file_success(1,2) [OF wr] show ?thesis by (simp add: lookup_update)
  qed
  from M(3) keepm
  show "\<exists>src root. read_file (files w1) ?mp = Inr src \<and> xml_parse E src = Some root
           \<and> ((\<exists>app. find_descendant ''application'' root = Some app
                   \<and> get_attr app networkSecurityConfig \<noteq> None)
                  \<and> lookup (files w2) ?mp = Some (File src)
               \<or> lookup (files w2) ?mp = Some (File (xml_write E (patched_root root))))"
    by blast
qed

lemma butlast_ne_snoc: "butlast d \<noteq> d @ [x]"
proof
  assume "butlast d = d @ [x]"
  then have "length (butlast d) = length (d @ [x])" by simp
  then show False by simp
qed

lemma not_prefix_longer: "length q < length d \<Longrightarrow> \<not> prefix d q"
  by (auto dest: prefix_length_le)

lemma unlink_success:
  assumes "unlink fs p = Inr fs'"
  shows "fs' = AList.delete p fs"
  using assms by (auto simp: unlink_def split: option.splits node.splits)

lemma rmtree_success:
  assumes "rmtree fs p = Inr fs'"
  shows "fs' = remove_tree fs p"
  using assms by (auto simp: rmtree_def split: option.splits node.splits)

lemma rename_file_success:
  assumes "rename fs src dst = Inr fs'" and "lookup fs src = Some (File c)"
  shows "fs' = AList.update dst (File c) (AList.delete src fs)" and "dst \<noteq> []"
  using assms
  by (auto simp: rename_def parent_check_def lookup_def split: option.splits node.splits if_splits)

lemma patch_split_run:
  assumes run: "patch_split E po a s apk w = (Inr (), w')"
    and D: "lookup (files w) po = Some Dir" "lookup (files w) (butlast po) = Some Dir"
  shows "\<exists>c t w1 w2 p sgn.
      read_file (files w) apk = Inr c \<and> apktool_d E c = Some t
    \<and> lookup (files w) (po @ [stem (last apk)]) = None
    \<and> files w1 = place_tree (files w) (po @ [stem (last apk)]) t
    \<and> (if stem (last apk) = ''base''
        then bnd (patch_manifest E (po @ [stem (last apk)]))
               (\<lambda>_. add_network_security_config (po @ [stem (last apk)])) w1 = (Inr (), w2)
        else w2 = w1)
    \<and> apktool_b E (subtree (files w2) (po @ [stem (last apk)])) = Some p
    \<and> apk_signer E p = Some sgn
    \<and> lookup (files w') (po @ [patched_name apk]) = Some (File sgn)
    \<and> lookup (files w') po = Some Dir \<and> lookup (files w') (butlast po) = Some Dir
    \<and> set (entries (files w') po) =
         (set (entries (files w) po)
            - {stem (last apk) @ ''.repack.apk'', stem (last apk) @ ''.repack-aligned-debugSigned.apk''})
         \<union> {patched_name apk}
    \<and> (\<forall>x. is_file (files w) (po @ [x @ ''_patched.apk''])
           \<longrightarrow> is_file (files w') (po @ [x @ ''_patched.apk'']))
    \<and> trace w' = trace w @
         [Subprocess [''java'', ''-jar'', path_str E a, ''d'', path_str E apk, ''-o'',
                      path_str E (po @ [stem (last apk)]), ''-s''],
          Subprocess [''java'', ''-jar'', path_str E a, ''b'', path_str E (po @ [stem (last apk)]),
                      ''-o'', path_str E (po @ [stem (last apk) @ ''.repack.apk''])],
          Subprocess [''java'', ''-jar'', path_str E s, ''-a'',
                      path_str E (po @ [stem (last apk) @ ''.repack.apk''])]]"
proof -
  let ?st = "stem (last apk)"
  let ?J = "join po ?st"
  let ?U = "po @ [?st]"
  let ?P = "po @ [?st @ ''.repack.apk'']"
  let ?S = "po @ [?st @ ''.repack-aligned-debugSigned.apk'']"
  let ?F = "po @ [patched_name apk]"
  let ?patch = "if ?st = ''base''
      then bnd (patch_manifest E ?J) (\<lambda>_. add_network_security_config ?J) else ok ()"
  from run have run': "bnd (run_apktool_d E a apk ?J) (\<lambda>_.
      bnd ?patch (\<lambda>_.
      bnd (run_apktool_b E a ?J ?P) (\<lambda>_.
      bnd (run_signer E s ?P) (\<lambda>_.
      bnd (fs_op (\<lambda>fs. unlink fs ?P)) (\<lambda>_.
      bnd (fs_op (\<lambda>fs. rmtree fs ?J)) (\<lambda>_.
      fs_op (\<lambda>fs. rename fs ?S ?F))))))) w = (Inr (), w')"
    unfolding patch_split_def Let_def patched_name_def .
  from run' obtain u1 w1 where s1: "run_apktool_d E a apk ?J w = (Inr u1, w1)"
    and r1: "bnd ?patch (\<lambda>_.
      bnd (run_apktool_b E a ?J ?P) (\<lambda>_.
      bnd (run_signer E s ?P) (\<lambda>_.
      bnd (fs_op (\<lambda>fs. unlink fs ?P)) (\<lambda>_.
      bnd (fs_op (\<lambda>fs. rmtree fs ?J)) (\<lambda>_.
      fs_op (\<lambda>fs. rename fs ?S ?F)))))) w1 = (Inr (), w')"
    by (rule bnd_success)
  from r1 obtain u2 w2 where s2: "?patch w1 = (Inr u2, w2)"
    and r2: "bnd (run_apktool_b E a ?J ?P) (\<lambda>_.
      bnd (run_signer E s ?P) (\<lambda>_.
      bnd (fs_op (\<lambda>fs. unlink fs ?P)) (\<lambda>_.
      bnd (fs_op (\<lambda>fs. rmtree fs ?J)) (\<lambda>_.
      fs_op (\<lambda>fs. rename fs ?S ?F))))) w2 = (Inr (), w')"
    by (rule bnd_success)
  from r2 obtain u3 w3 where s3: "run_apktool_b E a ?J ?P w2 = (Inr u3, w3)"
    and r3: "bnd (run_signer E s ?P) (\<lambda>_.
      bnd (fs_op (\<lambda>fs. unlink fs ?P)) (\<lambda>_.
      bnd (fs_op (\<lambda>fs. rmtree fs ?J)) (\<lambda>_.
      fs_op (\<lambda>fs. rename fs ?S ?F)))) w3 = (Inr (), w')"
    by (rule bnd_success)
  from r3 obtain u4 w4 where s4: "run_signer E s ?P w3 = (Inr u4, w4)"
    and r4: "bnd (fs_op (\<lambda>fs. unlink fs ?P)) (\<lambda>_.
      bnd (fs_op (\<lambda>fs. rmtree fs ?J)) (\<lambda>_.
      fs_op (\<lambda>fs. rename fs ?S ?F))) w4 = (Inr (), w')"
    by (rule bnd_success)
  from r4 obtain u5 w5 where s5: "fs_op (\<lambda>fs. unlink fs ?P) w4 = (Inr u5, w5)"
    and r5: "bnd (fs_op (\<lambda>fs. rmtree fs ?J)) (\<lambda>_. fs_op (\<lambda>fs. rename fs ?S ?F)) w5 = (Inr (), w')"
    by (rule bnd_success)
  from r5 obtain u6 w6 where s6: "fs_op (\<lambda>fs. rmtree fs ?J) w5 = (Inr u6, w6)"
    and s7: "fs_op (\<lambda>fs. rename fs ?S ?F) w6 = (Inr (), w')"
    by (rule bnd_success)
  \<comment> \<open>decompile\<close>
  from run_apktool_d_success [of E a apk ?J w w1] s1 obtain c t where
    rd: "read_file (files w) apk = Inr c" and dec: "apktool_d E c = Some t"
    and absent: "lookup (files w) ?J = None"
    and f1: "files w1 = place_tree (files w) ?J t"
    and t1: "trace w1 = trace w @ [Subprocess [''java'', ''-jar'', path_str E a, ''d'', path_str E apk,
                                            ''-o'', path_str E ?J, ''-s'']]"
    by auto
  from absent D join_cases [of po ?st] have U: "?J = ?U" by auto
  note absent = absent [unfolded U] and f1 = f1 [unfolded U] and t1 = t1 [unfolded U]
  have nk: "?st \<notin> set (entries (files w) po)"
  proof
    assume "?st \<in> set (entries (files w) po)"
    then have "?U \<in> fst ` set (files w)" by (simp add: set_entries)
    then have "map_of (files w) ?U \<noteq> None" by (simp add: map_of_eq_None_iff)
    with absent show False by (simp add: lookup_def)
  qed
  have k1: "set (entries (files w1) po) = insert ?st (set (entries (files w) po))"
    by (simp add: f1 place_tree_kids)
  have d1: "lookup (files w1) po = Some Dir" "lookup (files w1) (butlast po) = Some Dir"
    "lookup (files w1) ?U = Some Dir"
    using D absent by (simp_all add: f1 place_tree_keeps place_tree_dir)
  \<comment> \<open>manifest and policy, for the base split\<close>
  have p2: "if ?st = ''base''
        then bnd (patch_manifest E ?U) (\<lambda>_. add_network_security_config ?U) w1 = (Inr (), w2)
        else w2 = w1"
    using s2 [unfolded U] by (auto simp: ok_def split: if_splits)
  have e2: "trace w2 = trace w1 \<and> set (entries (files w2) po) = set (entries (files w1) po)
      \<and> lookup (files w2) po = Some Dir \<and> lookup (files w2) (butlast po) = Some Dir
      \<and> lookup (files w2) ?U = Some Dir
      \<and> (\<forall>q n. lookup (files w1) q = Some n \<longrightarrow> \<not> prefix ?U q \<longrightarrow> lookup (files w2) q = Some n)"
  proof (cases "?st = ''base''")
    case True
    with p2 have b: "bnd (patch_manifest E ?U) (\<lambda>_. add_network_security_config ?U) w1 = (Inr (), w2)"
      by simp
    from base_patch_effect(1,2) [OF b d1(3)] base_patch_effect(3,4) [OF b d1(3)] d1
    show ?thesis by blast
  next
    case False
    with p2 d1 show ?thesis by simp
  qed
  \<comment> \<open>recompile\<close>
  from run_apktool_b_success [of E a ?J ?P w2 w3] s3 obtain p where
    bld: "apktool_b E (subtree (files w2) ?U) = Some p"
    and wr3: "write_file (files w2) ?P p = Inr (files w3)"
    and t3: "trace w3 = trace w2 @ [Subprocess [''java'', ''-jar'', path_str E a, ''b'', path_str E ?U,
                                            ''-o'', path_str E ?P]]"
    by (auto simp: U)
  note f3 = write_file_success(1) [OF wr3]
  have l3: "lookup (files w3) ?P = Some (File p)" by (simp add: f3 lookup_update)
  have d3: "lookup (files w3) po = Some Dir" "lookup (files w3) (butlast po) = Some Dir"
    "lookup (files w3) ?U = Some Dir"
    using e2 write_file_keeps_dirs [OF wr3] by blast+
  \<comment> \<open>sign\<close>
  from run_signer_success [of E s ?P w3 w4] s4 obtain c' sgn where
    rd4: "read_file (files w3) ?P = Inr c'" and sg: "apk_signer E c' = Some sgn"
    and wr4: "write_file (files w3) (signer_output ?P) sgn = Inr (files w4)"
    and t4: "trace w4 = trace w3 @ [Subprocess [''java'', ''-jar'', path_str E s, ''-a'', path_str E ?P]]"
    by auto
  from rd4 l3 have c': "c' = p" by (simp add: read_file_def)
  note wr4 = wr4 [unfolded signer_output_packed]
  note f4 = write_file_success(1) [OF wr4]
  have l4: "lookup (files w4) ?S = Some (File sgn)" "lookup (files w4) ?P = Some (File p)"
    using l3 by (simp_all add: f4 lookup_update)
  have d4: "lookup (files w4) po = Some Dir" "lookup (files w4) (butlast po) = Some Dir"
    "lookup (files w4) ?U = Some Dir"
    using d3 write_file_keeps_dirs [OF wr4] by blast+
  \<comment> \<open>clean up and rename\<close>
  from fs_op_success [of "\<lambda>fs. unlink fs ?P" w4 w5] s5
  have f5: "files w5 = AList.delete ?P (files w4)" and t5: "trace w5 = trace w4"
    by (auto dest: unlink_success)
  from fs_op_success [of "\<lambda>fs. rmtree fs ?J" w5 w6] s6
  have f6: "files w6 = remove_tree (files w5) ?U" and t6: "trace w6 = trace w5"
    by (auto simp: U dest: rmtree_success)
  have nS: "\<not> prefix ?U ?S" by simp
  have l6: "lookup (files w6) ?S = Some (File sgn)"
    using l4(1) nS by (simp add: f6 f5 lookup_remove_tree lookup_delete)
  from fs_op_success [of "\<lambda>fs. rename fs ?S ?F" w6 w'] s7
  have rn: "rename (files w6) ?S ?F = Inr (files w')" and t7: "trace w' = trace w6" by auto
  note f7 = rename_file_success(1) [OF rn l6]
  have lF: "lookup (files w') ?F = Some (File sgn)" by (simp add: f7 lookup_update)
  have npo: "\<not> prefix ?U po" "\<not> prefix ?U (butlast po)"
    by (simp_all add: not_prefix_longer)
  have dF: "lookup (files w') po = Some Dir" "lookup (files w') (butlast po) = Some Dir"
    using d4(1,2) npo butlast_ne_snoc [of po]
    by (simp_all add: f7 f6 f5 lookup_update lookup_delete lookup_remove_tree)
  have kF: "set (entries (files w') po) =
         (set (entries (files w) po) - {?st @ ''.repack.apk'', ?st @ ''.repack-aligned-debugSigned.apk''})
         \<union> {patched_name apk}"
    using nk e2 k1
    by (auto simp: f7 f6 f5 f4 f3 kids_update kids_delete kids_remove_tree)
  have iF: "is_file (files w') (po @ [x @ ''_patched.apk''])"
    if old: "is_file (files w) (po @ [x @ ''_patched.apk''])" for x
  proof -
    let ?q = "po @ [x @ ''_patched.apk'']"
    from old obtain y where y: "lookup (files w) ?q = Some (File y)"
      by (auto simp: is_file_def split: option.splits node.splits)
    with absent have ne: "?st \<noteq> x @ ''_patched.apk''" by auto
    then have np: "\<not> prefix ?U ?q" by simp
    have "lookup (files w1) ?q = Some (File y)" using y by (simp add: f1 place_tree_keeps)
    with e2 np have "lookup (files w2) ?q = Some (File y)" by blast
    then have "lookup (files w6) ?q = Some (File y)"
      using np patched_ne_repack [of x ?st] patched_ne_signed [of x ?st]
      by (simp add: f6 f5 f4 f3 lookup_update lookup_delete lookup_remove_tree)
    then have "lookup (files w') ?q = Some (File y) \<or> lookup (files w') ?q = Some (File sgn)"
      using patched_ne_signed [of x ?st] by (simp add: f7 lookup_update lookup_delete)
    then show ?thesis by (auto simp: is_file_def)
  qed
  have tF: "trace w' = trace w @
         [Subprocess [''java'', ''-jar'', path_str E a, ''d'', path_str E apk, ''-o'', path_str E ?U, ''-s''],
          Subprocess [''java'', ''-jar'', path_str E a, ''b'', path_str E ?U, ''-o'', path_str E ?P],
          Subprocess [''java'', ''-jar'', path_str E s, ''-a'', path_str E ?P]]"
    using e2 by (simp add: t7 t6 t5 t4 t3 t1)
  from iF have iF': "\<forall>x. is_file (files w) (po @ [x @ ''_patched.apk''])
           \<longrightarrow> is_file (files w') (po @ [x @ ''_patched.apk''])" by blast
  from rd dec absent f1 p2 bld sg [unfolded c'] lF dF kF iF' tF show ?thesis by blast
qed

lemma patch_manifest_effect:
  assumes "patch_manifest E u w = (Inr (), w1)"
  shows "\<exists>src root app. read_file (files w) (u @ [''AndroidManifest.xml'']) = Inr src
           \<and> xml_parse E src = Some root
           \<and> find_descendant ''application'' root = Some app
           \<and> (if get_attr app networkSecurityConfig = None
               then write_file (files w) (u @ [''AndroidManifest.xml'']) (xml_write E (patched_root root))
                      = Inr (files w1)
               else files w1 = files w)"
proof -
  let ?mp = "u @ [''AndroidManifest.xml'']"
  from assms obtain src where rd: "read_file (files w) ?mp = Inr src"
    by (cases "read_file (files w) ?mp")
       (auto simp: patch_manifest_def Let_def bnd_def lift_result_def)
  from assms rd obtain root where pr: "xml_parse E src = Some root"
    by (cases "xml_parse E src")
       (auto simp: patch_manifest_def Let_def bnd_def lift_result_def require_def raise_def)
  from assms rd pr obtain app where fd: "find_descendant ''application'' root = Some app"
    by (cases "find_descendant ''application'' root")
       (auto simp: patch_manifest_def Let_def bnd_def lift_result_def require_def raise_def)
  have "if get_attr app networkSecurityConfig = None
        then write_file (files w) ?mp (xml_write E (patched_root root)) = Inr (files w1)
        else files w1 = files w"
  proof (cases "get_attr app networkSecurityConfig")
    case None
    with assms rd pr fd show ?thesis
      by (auto simp: patch_manifest_def Let_def bnd_def lift_result_def require_def raise_def
               fs_op_def patched_root_def split: sum.splits)
  next
    case (Some v)
    with rd pr fd have "patch_manifest E u w = (Inr (), w)"
      by (intro patch_manifest_present) auto
    with assms Some show ?thesis by simp
  qed
  with rd pr fd show ?thesis by blast
qed

lemma take_below:
  assumes "u @ q = take k (u @ [r, x])"
  shows "q = [] \<or> q = [r] \<or> q = [r, x]"
proof (cases "k \<le> length u")
  case True
  from assms have "length (u @ q) = length (take k (u @ [r, x]))" by simp
  then have "length u + length q = min k (length u + 2)" by simp
  with True have "length q = 0" by arith
  then show ?thesis by simp
next
  case False
  then have "take k (u @ [r, x]) = u @ take (k - length u) [r, x]" by simp
  with assms have q: "q = take (k - length u) [r, x]" by simp
  show ?thesis
  proof (cases "k - length u")
    case 0
    with q show ?thesis by simp
  next
    case (Suc j)
    with q show ?thesis by (cases j) simp_all
  qed
qed

lemma lookup_append_other: "k \<notin> fst ` set gs \<Longrightarrow> lookup (fs @ gs) k = lookup fs k"
proof -
  assume "k \<notin> fst ` set gs"
  then have "map_of gs k = None" by (simp add: map_of_eq_None_iff)
  then show ?thesis by (simp add: lookup_def map_add_def split: option.splits)
qed

lemma base_patch_inside:
  assumes run: "bnd (patch_manifest E u) (\<lambda>_. add_network_security_config u) w1 = (Inr (), w2)"
  shows "\<exists>src root app.
      read_file (files w1) (u @ [''AndroidManifest.xml'']) = Inr src
    \<and> xml_parse E src = Some root
    \<and> find_descendant ''application'' root = Some app
    \<and> lookup (files w2) (u @ [''AndroidManifest.xml''])
        = Some (File (if get_attr app networkSecurityConfig = None
                      then xml_write E (patched_root root) else src))
    \<and> lookup (files w2) (u @ [''res'', ''xml'', ''network_security_config.xml''])
        = Some (File network_security_config_xml)
    \<and> lookup (files w2) (u @ [''res'']) = Some Dir
    \<and> lookup (files w2) (u @ [''res'', ''xml'']) = Some Dir
    \<and> (\<forall>q. q \<notin> {[], [''AndroidManifest.xml''], [''res''], [''res'', ''xml''],
                 [''res'', ''xml'', ''network_security_config.xml'']}
          \<longrightarrow> lookup (files w2) (u @ q) = lookup (files w1) (u @ q))"
proof -
  let ?mp = "u @ [''AndroidManifest.xml'']"
  let ?np = "u @ [''res'', ''xml'', ''network_security_config.xml'']"
  from run obtain x wm where pm: "patch_manifest E u w1 = (Inr x, wm)"
    and an: "add_network_security_config u wm = (Inr (), w2)"
    by (rule bnd_success)
  from pm have pm: "patch_manifest E u w1 = (Inr (), wm)" by simp
  from patch_manifest_effect [OF pm] obtain src root app where
    rd: "read_file (files w1) ?mp = Inr src" and pr: "xml_parse E src = Some root"
    and fd: "find_descendant ''application'' root = Some app"
    and eff: "if get_attr app networkSecurityConfig = None
              then write_file (files w1) ?mp (xml_write E (patched_root root)) = Inr (files wm)
              else files wm = files w1"
    by blast
  let ?m = "if get_attr app networkSecurityConfig = None then xml_write E (patched_root root) else src"
  from rd have l1: "lookup (files w1) ?mp = Some (File src)"
    by (auto simp: read_file_def split: option.splits node.splits)
  have lm: "lookup (files wm) ?mp = Some (File ?m)"
  proof (cases "get_attr app networkSecurityConfig")
    case None
    with eff have "write_file (files w1) ?mp (xml_write E (patched_root root)) = Inr (files wm)" by simp
    from write_file_read [OF this] None show ?thesis
      by (auto simp: read_file_def split: option.splits node.splits)
  next
    case (Some v)
    with eff l1 show ?thesis by simp
  qed
  have om: "lookup (files wm) q = lookup (files w1) q" if "q \<noteq> ?mp" for q
  proof (cases "get_attr app networkSecurityConfig")
    case None
    with eff have "write_file (files w1) ?mp (xml_write E (patched_root root)) = Inr (files wm)" by simp
    from write_file_success(1,2) [OF this] that show ?thesis by (simp add: lookup_update)
  next
    case (Some v)
    with eff show ?thesis by simp
  qed
  note N = add_network_security_config_success [OF an]
  from N(2) obtain fs1 where mk: "mkdir_parents (files wm) (u @ [''res'', ''xml'']) = Inr fs1"
    and wr: "write_file fs1 ?np network_security_config_xml = Inr (files w2)" by auto
  from mkdir_from_added [OF mk [unfolded mkdir_parents_def]] obtain added where
    a: "fs1 = files wm @ added" "\<forall>q \<in> fst ` set added. \<exists>k. q = take k (u @ [''res'', ''xml''])"
    by auto
  have o1: "lookup fs1 (u @ q) = lookup (files wm) (u @ q)"
    if "q \<notin> {[], [''res''], [''res'', ''xml'']}" for q
  proof -
    have "u @ q \<notin> fst ` set added"
    proof
      assume "u @ q \<in> fst ` set added"
      with a(2) obtain k where "u @ q = take k (u @ [''res'', ''xml''])" by blast
      from take_below [OF this] that show False by simp
    qed
    then show ?thesis unfolding a(1) by (rule lookup_append_other)
  qed
  note W = write_file_success(1,2) [OF wr]
  have "lookup fs1 ?mp = Some (File ?m)"
    using o1 [of "[''AndroidManifest.xml'']"] lm by simp
  then have A: "lookup (files w2) ?mp = Some (File ?m)"
    using W by (simp add: lookup_update)
  from write_file_read [OF wr] have B: "lookup (files w2) ?np = Some (File network_security_config_xml)"
    by (auto simp: read_file_def split: option.splits node.splits)
  have C: "lookup (files w2) (u @ q) = lookup (files w1) (u @ q)"
    if "q \<notin> {[], [''AndroidManifest.xml''], [''res''], [''res'', ''xml''],
                 [''res'', ''xml'', ''network_security_config.xml'']}" for q
  proof -
    from that have "u @ q \<noteq> ?np" "u @ q \<noteq> ?mp" by auto
    then have "lookup (files w2) (u @ q) = lookup fs1 (u @ q)" using W by (simp add: lookup_update)
    also have "\<dots> = lookup (files wm) (u @ q)" using that by (intro o1) simp
    also have "\<dots> = lookup (files w1) (u @ q)" using \<open>u @ q \<noteq> ?mp\<close> by (rule om)
    finally show ?thesis .
  qed
  have root: "lookup (files wm) [] = Some Dir" by (simp add: lookup_def)
  from mkdir_from_prefixes [OF mk [unfolded mkdir_parents_def] root, of "Suc (length u)"]
  have "lookup fs1 (u @ [''res'']) = Some Dir" by simp
  from write_file_keeps_dirs [OF wr this] have D1: "lookup (files w2) (u @ [''res'']) = Some Dir" .
  from mkdir_from_prefixes [OF mk [unfolded mkdir_parents_def] root, of "Suc (Suc (length u))"]
  have "lookup fs1 (u @ [''res'', ''xml'']) = Some Dir" by simp
  from write_file_keeps_dirs [OF wr this] have D2: "lookup (files w2) (u @ [''res'', ''xml'']) = Some Dir" .
  from rd pr fd A B D1 D2 C show ?thesis by blast
qed

lemma patched_root_application:
  assumes "find_descendant ''application'' root = Some app"
  shows "find_descendant ''application'' (patched_root root)
           = Some (set_attr networkSecurityConfig ''@xml/network_security_config'' app)"
  unfolding patched_root_def by (simp add: find_descendant_update assms)

lemma set_attr_other: "k' \<noteq> k \<Longrightarrow> get_attr (set_attr k v e) k' = get_attr e k'"
  by (simp add: get_attr_def set_attr_def update_conv')

lemma children_set_attr: "children (set_attr k v e) = children e"
  by (simp add: set_attr_def)

text \<open>
  Claim C5. A split whose stem is not \<open>base\<close> goes through the unmodified pipeline: the tree
  handed to the recompiler is the tree the decompiler wrote, and the file
  \<open><stem>_patched.apk\<close> holds the signed recompilation of it. For the split whose stem is
  \<open>base\<close> (the file \<open>base.apk\<close>), the tree handed to the recompiler is the decompiled tree with
  two changes and no other: the policy file holds the fixed document (below \<open>res\<close> and
  \<open>res/xml\<close>, which are directories), and the manifest is the serialisation of the decompiled manifest
  with the attribute set when its application element did not have it, and the decompiled
  manifest itself when it did. Setting the attribute gives the application element, the
  first one in document order, the value \<open>@xml/network_security_config\<close> and leaves its tag,
  its children and its other attributes alone. The stem of \<open>base.apk\<close> is \<open>base\<close>, that of
  \<open>config.arm64.apk\<close> is \<open>config.arm64\<close>. In both cases nothing lay below the working
  directory before the decompiler ran.
\<close>

theorem only_base_split_is_patched:
  "(stem (last apk) \<noteq> ''base'' \<longrightarrow> patch_split E po a s apk = repack_unmodified E po a s apk)
   \<and> (\<forall>w w'. stem (last apk) \<noteq> ''base'' \<and> patch_split E po a s apk w = (Inr (), w')
         \<and> lookup (files w) po = Some Dir \<and> lookup (files w) (butlast po) = Some Dir
         \<and> subtree (files w) (po @ [stem (last apk)]) = []
       \<longrightarrow> (\<exists>c t p sgn. read_file (files w) apk = Inr c \<and> apktool_d E c = Some t
              \<and> apktool_b E (filter (\<lambda>(q, n). q \<noteq> []) t) = Some p \<and> apk_signer E p = Some sgn
              \<and> lookup (files w') (po @ [patched_name apk]) = Some (File sgn)))
   \<and> (\<forall>w w'. stem (last apk) = ''base'' \<and> patch_split E po a s apk w = (Inr (), w')
         \<and> lookup (files w) po = Some Dir \<and> lookup (files w) (butlast po) = Some Dir
         \<and> subtree (files w) (po @ [stem (last apk)]) = []
       \<longrightarrow> (\<exists>c t src root app tr p sgn.
              read_file (files w) apk = Inr c \<and> apktool_d E c = Some t
            \<and> map_of t [''AndroidManifest.xml''] = Some (File src)
            \<and> xml_parse E src = Some root
            \<and> find_descendant ''application'' root = Some app
            \<and> map_of tr [''AndroidManifest.xml'']
                = Some (File (if get_attr app networkSecurityConfig = None
                              then xml_write E (patched_root root) else src))
            \<and> map_of tr [''res'', ''xml'', ''network_security_config.xml'']
                = Some (File network_security_config_xml)
            \<and> map_of tr [''res''] = Some Dir \<and> map_of tr [''res'', ''xml''] = Some Dir
            \<and> map_of tr [] = None
            \<and> (\<forall>q. q \<notin> {[], [''AndroidManifest.xml''], [''res''], [''res'', ''xml''],
                         [''res'', ''xml'', ''network_security_config.xml'']}
                  \<longrightarrow> map_of tr q = map_of t q)
            \<and> apktool_b E tr = Some p \<and> apk_signer E p = Some sgn
            \<and> lookup (files w') (po @ [patched_name apk]) = Some (File sgn)))
   \<and> (\<forall>root app. find_descendant ''application'' root = Some app \<longrightarrow>
         (\<exists>app'. find_descendant ''application'' (patched_root root) = Some app'
            \<and> get_attr app' networkSecurityConfig = Some ''@xml/network_security_config''
            \<and> tag app' = tag app \<and> children app' = children app
            \<and> (\<forall>k. k \<noteq> networkSecurityConfig \<longrightarrow> get_attr app' k = get_attr app k)))
   \<and> stem ''base.apk'' = ''base'' \<and> stem ''config.arm64.apk'' = ''config.arm64''"
proof -
  let ?st = "stem (last apk)"
  let ?U = "po @ [?st]"
  have same: "patch_split E po a s apk = repack_unmodified E po a s apk" if "?st \<noteq> ''base''"
    using that by (simp add: patch_split_def repack_unmodified_def Let_def)
  have other: "\<exists>c t p sgn. read_file (files w) apk = Inr c \<and> apktool_d E c = Some t
              \<and> apktool_b E (filter (\<lambda>(q, n). q \<noteq> []) t) = Some p \<and> apk_signer E p = Some sgn
              \<and> lookup (files w') (po @ [patched_name apk]) = Some (File sgn)"
    if nb: "?st \<noteq> ''base''" and run: "patch_split E po a s apk w = (Inr (), w')"
      and D: "lookup (files w) po = Some Dir" "lookup (files w) (butlast po) = Some Dir"
      and empty: "subtree (files w) ?U = []" for w w'
  proof -
    from patch_split_run [OF run D] obtain c t w1 w2 p sgn where
      g: "read_file (files w) apk = Inr c" "apktool_d E c = Some t"
         "files w1 = place_tree (files w) ?U t"
         "if ?st = ''base''
          then bnd (patch_manifest E ?U) (\<lambda>_. add_network_security_config ?U) w1 = (Inr (), w2)
          else w2 = w1"
         "apktool_b E (subtree (files w2) ?U) = Some p" "apk_signer E p = Some sgn"
         "lookup (files w') (po @ [patched_name apk]) = Some (File sgn)"
      by (elim exE conjE) (rule that)
    from g(4) nb have "w2 = w1" by simp
    with g have f: "read_file (files w) apk = Inr c" "apktool_d E c = Some t"
         "files w1 = place_tree (files w) ?U t"
         "apktool_b E (subtree (files w1) ?U) = Some p" "apk_signer E p = Some sgn"
         "lookup (files w') (po @ [patched_name apk]) = Some (File sgn)"
      by simp_all
    from f(3) empty have "subtree (files w1) ?U = filter (\<lambda>(q, n). q \<noteq> []) t"
      by (simp add: place_tree_subtree)
    with f show ?thesis by auto
  qed
  have base: "\<exists>c t src root app tr p sgn.
              read_file (files w) apk = Inr c \<and> apktool_d E c = Some t
            \<and> map_of t [''AndroidManifest.xml''] = Some (File src)
            \<and> xml_parse E src = Some root
            \<and> find_descendant ''application'' root = Some app
            \<and> map_of tr [''AndroidManifest.xml'']
                = Some (File (if get_attr app networkSecurityConfig = None
                              then xml_write E (patched_root root) else src))
            \<and> map_of tr [''res'', ''xml'', ''network_security_config.xml'']
                = Some (File network_security_config_xml)
            \<and> map_of tr [''res''] = Some Dir \<and> map_of tr [''res'', ''xml''] = Some Dir
            \<and> map_of tr [] = None
            \<and> (\<forall>q. q \<notin> {[], [''AndroidManifest.xml''], [''res''], [''res'', ''xml''],
                         [''res'', ''xml'', ''network_security_config.xml'']}
                  \<longrightarrow> map_of tr q = map_of t q)
            \<and> apktool_b E tr = Some p \<and> apk_signer E p = Some sgn
            \<and> lookup (files w') (po @ [patched_name apk]) = Some (File sgn)"
    if b: "?st = ''base''" and run: "patch_split E po a s apk w = (Inr (), w')"
      and D: "lookup (files w) po = Some Dir" "lookup (files w) (butlast po) = Some Dir"
      and empty: "subtree (files w) ?U = []" for w w'
  proof -
    from patch_split_run [OF run D] obtain c t w1 w2 p sgn where
      g: "read_file (files w) apk = Inr c" "apktool_d E c = Some t"
         "files w1 = place_tree (files w) ?U t"
         "if ?st = ''base''
          then bnd (patch_manifest E ?U) (\<lambda>_. add_network_security_config ?U) w1 = (Inr (), w2)
          else w2 = w1"
         "apktool_b E (subtree (files w2) ?U) = Some p" "apk_signer E p = Some sgn"
         "lookup (files w') (po @ [patched_name apk]) = Some (File sgn)"
      by (elim exE conjE) (rule that)
    from g(4) b have r: "bnd (patch_manifest E ?U) (\<lambda>_. add_network_security_config ?U) w1 = (Inr (), w2)"
      by (simp only: if_True)
    from g(3) empty have sub1: "subtree (files w1) ?U = filter (\<lambda>(q, n). q \<noteq> []) t"
      by (simp add: place_tree_subtree)
    have in1: "lookup (files w1) (?U @ q) = map_of t q" if "q \<noteq> []" for q
      using subtree_lookup [OF that, of "files w1" ?U] that
      by (simp add: sub1 map_of_filter_key)
    let ?tr = "subtree (files w2) ?U"
    have in2: "map_of ?tr q = lookup (files w2) (?U @ q)" if "q \<noteq> []" for q
      using that by (rule subtree_lookup)
    have none2: "map_of ?tr [] = None"
      by (auto simp: subtree_def map_of_eq_None_iff strict_prefix_def prefix_def)
    from base_patch_inside [OF r] obtain src root app where
      h: "read_file (files w1) (?U @ [''AndroidManifest.xml'']) = Inr src"
         "xml_parse E src = Some root"
         "find_descendant ''application'' root = Some app"
         "lookup (files w2) (?U @ [''AndroidManifest.xml''])
            = Some (File (if get_attr app networkSecurityConfig = None
                          then xml_write E (patched_root root) else src))"
         "lookup (files w2) (?U @ [''res'', ''xml'', ''network_security_config.xml''])
            = Some (File network_security_config_xml)"
         "lookup (files w2) (?U @ [''res'']) = Some Dir"
         "lookup (files w2) (?U @ [''res'', ''xml'']) = Some Dir"
         "\<forall>q. q \<notin> {[], [''AndroidManifest.xml''], [''res''], [''res'', ''xml''],
                 [''res'', ''xml'', ''network_security_config.xml'']}
          \<longrightarrow> lookup (files w2) (?U @ q) = lookup (files w1) (?U @ q)"
      by (elim exE conjE) (rule that)
    from h(1) have "lookup (files w1) (?U @ [''AndroidManifest.xml'']) = Some (File src)"
      by (auto simp: read_file_def split: option.splits node.splits)
    then have m0: "map_of t [''AndroidManifest.xml''] = Some (File src)"
      using in1 [of "[''AndroidManifest.xml'']"] by simp
    have m1: "map_of ?tr [''AndroidManifest.xml'']
                = Some (File (if get_attr app networkSecurityConfig = None
                              then xml_write E (patched_root root) else src))"
      using h(4) in2 [of "[''AndroidManifest.xml'']"] by simp
    have m2: "map_of ?tr [''res'', ''xml'', ''network_security_config.xml'']
                = Some (File network_security_config_xml)"
      using h(5) in2 [of "[''res'', ''xml'', ''network_security_config.xml'']"] by simp
    have m3: "\<forall>q. q \<notin> {[], [''AndroidManifest.xml''], [''res''], [''res'', ''xml''],
                         [''res'', ''xml'', ''network_security_config.xml'']}
                  \<longrightarrow> map_of ?tr q = map_of t q"
    proof (intro allI impI)
      fix q :: path
      assume q: "q \<notin> {[], [''AndroidManifest.xml''], [''res''], [''res'', ''xml''],
                         [''res'', ''xml'', ''network_security_config.xml'']}"
      then have ne: "q \<noteq> []" by simp
      from h(8) q have "lookup (files w2) (?U @ q) = lookup (files w1) (?U @ q)" by blast
      with in1 [OF ne] in2 [OF ne] show "map_of ?tr q = map_of t q" by simp
    qed
    have m4: "map_of ?tr [''res''] = Some Dir" "map_of ?tr [''res'', ''xml''] = Some Dir"
      using h(6,7) in2 [of "[''res'']"] in2 [of "[''res'', ''xml'']"] by simp_all
    from g(1,2) m0 h(2,3) m1 m2 m4 none2 m3 g(5,6,7) show ?thesis by blast
  qed
  have attr: "\<exists>app'. find_descendant ''application'' (patched_root root) = Some app'
            \<and> get_attr app' networkSecurityConfig = Some ''@xml/network_security_config''
            \<and> tag app' = tag app \<and> children app' = children app
            \<and> (\<forall>k. k \<noteq> networkSecurityConfig \<longrightarrow> get_attr app' k = get_attr app k)"
    if "find_descendant ''application'' root = Some app" for root app
    using patched_root_application [OF that]
    by (simp add: set_attr_other children_set_attr)
  have stems: "stem ''base.apk'' = ''base''" "stem ''config.arm64.apk'' = ''config.arm64''"
    by (simp_all add: stem_def)
  from same other base attr stems show ?thesis by blast
qed

theorem only_base_split_is_patched_witness:
  "stem (last [''packages'', ''com.x'', ''base.apk'']) = ''base''
   \<and> stem (last [''packages'', ''com.x'', ''split.apk'']) \<noteq> ''base''
   \<and> fst (patch_split repack_env [''patched'', ''com.x_patched''] [''utils'', ''tool.jar'']
           [''utils'', ''tool.jar''] [''packages'', ''com.x'', ''base.apk''] pulled_world) = Inr ()
   \<and> lookup (files (snd (patch_split repack_env [''patched'', ''com.x_patched''] [''utils'', ''tool.jar'']
           [''utils'', ''tool.jar''] [''packages'', ''com.x'', ''base.apk''] pulled_world)))
         ([''patched'', ''com.x_patched''] @ [patched_name [''packages'', ''com.x'', ''base.apk'']])
       = Some (File (''signed:/AndroidManifest.xml=<application nsc=@xml/network_security_config>;''
                     @ ''/classes.dex;/res;/res/xml;/res/xml/network_security_config.xml;''))
   \<and> fst (patch_split repack_env [''patched'', ''com.x_patched''] [''utils'', ''tool.jar'']
           [''utils'', ''tool.jar''] [''packages'', ''com.x'', ''split.apk''] pulled_world) = Inr ()
   \<and> lookup (files (snd (patch_split repack_env [''patched'', ''com.x_patched''] [''utils'', ''tool.jar'']
           [''utils'', ''tool.jar''] [''packages'', ''com.x'', ''split.apk''] pulled_world)))
         ([''patched'', ''com.x_patched''] @ [patched_name [''packages'', ''com.x'', ''split.apk'']])
       = Some (File ''signed:/AndroidManifest.xml=M;/classes.dex;'')"
proof -
  let ?po = "[''patched'', ''com.x_patched'']"
  let ?jar = "[''utils'', ''tool.jar'']"
  let ?base = "[''packages'', ''com.x'', ''base.apk'']"
  let ?split = "[''packages'', ''com.x'', ''split.apk'']"
  let ?rb = "patch_split repack_env ?po ?jar ?jar ?base pulled_world"
  let ?rs = "patch_split repack_env ?po ?jar ?jar ?split pulled_world"
  have b: "stem (last ?base) = ''base''" by code_simp
  have nb: "stem (last ?split) \<noteq> ''base''" by code_simp
  have okb: "fst ?rb = Inr ()" by code_simp
  then have runb: "?rb = (Inr (), snd ?rb)" by (simp add: prod_eq_iff)
  have oks: "fst ?rs = Inr ()" by code_simp
  then have runs: "?rs = (Inr (), snd ?rs)" by (simp add: prod_eq_iff)
  have D: "lookup (files pulled_world) ?po = Some Dir"
    "lookup (files pulled_world) (butlast ?po) = Some Dir" by code_simp+
  have eb: "subtree (files pulled_world) (?po @ [stem (last ?base)]) = []" by code_simp
  have es: "subtree (files pulled_world) (?po @ [stem (last ?split)]) = []" by code_simp
  have parse: "xml_parse repack_env src = Some root \<Longrightarrow> src = ''M'' \<and> root = unpatched_manifest"
    for src root
    by (simp add: repack_env_def example_env_def split: if_splits)
  have app: "find_descendant ''application'' unpatched_manifest = Some (Element ''application'' [] [])"
    by code_simp
  have written: "xml_write repack_env (patched_root unpatched_manifest)
      = ''<application nsc=@xml/network_security_config>''"
    by code_simp
  note split_fact = only_base_split_is_patched [of ?split repack_env ?po ?jar ?jar]
  note base_fact = only_base_split_is_patched [of ?base repack_env ?po ?jar ?jar]
  \<comment> \<open>the split \<open>base.apk\<close>\<close>
  have pb: "stem (last ?base) = ''base'' \<and> ?rb = (Inr (), snd ?rb)
      \<and> lookup (files pulled_world) ?po = Some Dir \<and> lookup (files pulled_world) (butlast ?po) = Some Dir
      \<and> subtree (files pulled_world) (?po @ [stem (last ?base)]) = []"
    by (intro conjI) (rule b runb D eb)+
  from base_fact [THEN conjunct2, THEN conjunct2, THEN conjunct1, rule_format, OF pb]
  obtain src root app tr p sgn where
    g: "xml_parse repack_env src = Some root" "find_descendant ''application'' root = Some app"
       "map_of tr [''AndroidManifest.xml'']
          = Some (File (if get_attr app networkSecurityConfig = None
                        then xml_write repack_env (patched_root root) else src))"
       "apktool_b repack_env tr = Some p" "apk_signer repack_env p = Some sgn"
       "lookup (files (snd ?rb)) (?po @ [patched_name ?base]) = Some (File sgn)"
    by (elim exE conjE) (rule that)
  from parse [OF g(1)] g(2) app have "app = Element ''application'' [] []" by simp
  then have "get_attr app networkSecurityConfig = None"
    by (simp add: get_attr_def)
  with g(3) parse [OF g(1)] written
  have mb: "map_of tr [''AndroidManifest.xml'']
      = Some (File ''<application nsc=@xml/network_security_config>'')"
    by simp
  have lb: "lookup (files (snd ?rb)) (?po @ [patched_name ?base])
       = Some (File (''signed:/AndroidManifest.xml=<application nsc=@xml/network_security_config>;''
                     @ ''/classes.dex;/res;/res/xml;/res/xml/network_security_config.xml;''))"
    by code_simp
  \<comment> \<open>the split \<open>split.apk\<close>\<close>
  have ps: "stem (last ?split) \<noteq> ''base'' \<and> ?rs = (Inr (), snd ?rs)
      \<and> lookup (files pulled_world) ?po = Some Dir \<and> lookup (files pulled_world) (butlast ?po) = Some Dir
      \<and> subtree (files pulled_world) (?po @ [stem (last ?split)]) = []"
    by (intro conjI) (rule nb runs D es)+
  from split_fact [THEN conjunct2, THEN conjunct1, rule_format, OF ps]
  obtain c t p' sgn' where
    h: "apktool_d repack_env c = Some t"
       "apktool_b repack_env (filter (\<lambda>(q, n). q \<noteq> []) t) = Some p'"
       "apk_signer repack_env p' = Some sgn'"
       "lookup (files (snd ?rs)) (?po @ [patched_name ?split]) = Some (File sgn')"
    by (elim exE conjE) (rule that)
  from h(1) have "t = [([''AndroidManifest.xml''], File ''M''), ([''classes.dex''], File c)]"
    by (simp add: repack_env_def)
  with h(2) have "p' = ''/AndroidManifest.xml=M;/classes.dex;''"
    by (simp add: repack_env_def)
  with h(3) have "sgn' = ''signed:/AndroidManifest.xml=M;/classes.dex;''"
    by (simp add: repack_env_def)
  with h(4) have ls: "lookup (files (snd ?rs)) (?po @ [patched_name ?split])
      = Some (File ''signed:/AndroidManifest.xml=M;/classes.dex;'')"
    by simp
  from mb have "tr \<noteq> []" by auto
  with b nb okb oks lb ls show ?thesis by blast
qed

lemma patch_all_run:
  assumes "patch_all E po a s apks w = (Inr (), w')"
    and "lookup (files w) po = Some Dir" and "lookup (files w) (butlast po) = Some Dir"
    and "\<forall>n \<in> set (entries (files w) po). \<exists>t. n = t @ ''_patched.apk''"
  shows "lookup (files w') po = Some Dir \<and> lookup (files w') (butlast po) = Some Dir
    \<and> set (entries (files w') po) = set (entries (files w) po) \<union> patched_name ` set apks
    \<and> (\<forall>x. is_file (files w) (po @ [x @ ''_patched.apk''])
           \<longrightarrow> is_file (files w') (po @ [x @ ''_patched.apk'']))
    \<and> (\<forall>apk \<in> set apks. is_file (files w') (po @ [patched_name apk]))
    \<and> (\<exists>evs. trace w' = trace w @ evs \<and> (\<forall>ev \<in> set evs. is_subprocess ev)
           \<and> length evs = 3 * length apks)"
  using assms
proof (induction apks arbitrary: w)
  case Nil
  then show ?case by (simp add: ok_def)
next
  case (Cons apk apks)
  from Cons.prems(1) obtain u w1 where
    step: "patch_split E po a s apk w = (Inr u, w1)" and rest: "patch_all E po a s apks w1 = (Inr (), w')"
    by (auto elim: bnd_success)
  from step have step: "patch_split E po a s apk w = (Inr (), w1)" by simp
  from patch_split_run [OF step Cons.prems(2,3)] obtain sgn where
    f: "lookup (files w1) (po @ [patched_name apk]) = Some (File sgn)"
       "lookup (files w1) po = Some Dir" "lookup (files w1) (butlast po) = Some Dir"
       "set (entries (files w1) po) =
         (set (entries (files w) po)
            - {stem (last apk) @ ''.repack.apk'', stem (last apk) @ ''.repack-aligned-debugSigned.apk''})
         \<union> {patched_name apk}"
       "\<forall>x. is_file (files w) (po @ [x @ ''_patched.apk''])
           \<longrightarrow> is_file (files w1) (po @ [x @ ''_patched.apk''])"
       "\<exists>evs. trace w1 = trace w @ evs \<and> (\<forall>ev \<in> set evs. is_subprocess ev) \<and> length evs = 3"
    by (elim exE conjE) (rule that, simp_all)
  have k1: "set (entries (files w1) po) = insert (patched_name apk) (set (entries (files w) po))"
  proof -
    have "stem (last apk) @ ''.repack.apk'' \<notin> set (entries (files w) po)"
      using Cons.prems(4) patched_ne_repack by metis
    moreover have "stem (last apk) @ ''.repack-aligned-debugSigned.apk'' \<notin> set (entries (files w) po)"
      using Cons.prems(4) patched_ne_signed by metis
    ultimately show ?thesis using f(4) by auto
  qed
  have inv1: "\<forall>n \<in> set (entries (files w1) po). \<exists>t. n = t @ ''_patched.apk''"
    using Cons.prems(4) by (auto simp: k1 patched_name_def)
  note IH = Cons.IH [OF rest f(2,3) inv1]
  have new1: "is_file (files w1) (po @ [patched_name apk])" using f(1) by (simp add: is_file_def)
  have keep: "is_file (files w') (po @ [patched_name apk])"
    using IH new1 unfolding patched_name_def by blast
  from f(6) obtain e1 where e1: "trace w1 = trace w @ e1" "\<forall>ev \<in> set e1. is_subprocess ev" "length e1 = 3"
    by blast
  from IH obtain e2 where e2: "trace w' = trace w1 @ e2" "\<forall>ev \<in> set e2. is_subprocess ev"
    "length e2 = 3 * length apks" by blast
  from e1 e2 have "trace w' = trace w @ (e1 @ e2) \<and> (\<forall>ev \<in> set (e1 @ e2). is_subprocess ev)
      \<and> length (e1 @ e2) = 3 * length (apk # apks)" by auto
  then have ev: "\<exists>evs. trace w' = trace w @ evs \<and> (\<forall>ev \<in> set evs. is_subprocess ev)
           \<and> length evs = 3 * length (apk # apks)" by blast
  have A: "lookup (files w') po = Some Dir \<and> lookup (files w') (butlast po) = Some Dir"
    using IH by blast
  have B: "set (entries (files w') po) = set (entries (files w) po) \<union> patched_name ` set (apk # apks)"
    using IH k1 by auto
  have C: "\<forall>x. is_file (files w) (po @ [x @ ''_patched.apk''])
           \<longrightarrow> is_file (files w') (po @ [x @ ''_patched.apk''])"
    using IH f(5) by blast
  have Dd: "\<forall>apk' \<in> set (apk # apks). is_file (files w') (po @ [patched_name apk'])"
    using IH keep by auto
  from A B C Dd ev show ?case by blast
qed

lemma reset_output_parent:
  assumes "reset_output d w = (Inr (), w1)"
  shows "lookup (files w1) (butlast d) = Some Dir"
proof -
  from assms have mk: "mkdir (rmtree_ignore_errors (files w) d) d = Inr (files w1)"
    by (auto simp: reset_output_def bnd_fs_op fs_op_def split: sum.splits)
  then have "lookup (rmtree_ignore_errors (files w) d) (butlast d) = Some Dir"
    and "files w1 = rmtree_ignore_errors (files w) d @ [(d, Dir)]"
    by (auto simp: mkdir_def parent_check_def split: option.splits node.splits)
  then show ?thesis by (simp add: lookup_append_keep)
qed

lemma bnd_assoc: "bnd (bnd m f) g = bnd m (\<lambda>x. bnd (f x) g)"
  by (auto simp: bnd_def fun_eq_iff split: prod.splits sum.splits)

lemma emits_noneI:
  assumes "\<And>w. trace (snd (m w)) = trace w"
  shows "emits P m"
  unfolding emits_def
proof (intro allI impI)
  fix w r w' assume "m w = (r, w')"
  then have "snd (m w) = w'" by simp
  with assms [of w] have "trace w' = trace w @ [] \<and> (\<forall>ev \<in> set []. P ev)" by simp
  then show "\<exists>evs. trace w' = trace w @ evs \<and> (\<forall>ev \<in> set evs. P ev)" by blast
qed

lemma emits_oneI:
  assumes "\<And>w. trace (snd (m w)) = trace w @ [ev]" and "P ev"
  shows "emits P m"
  unfolding emits_def
proof (intro allI impI)
  fix w r w' assume "m w = (r, w')"
  then have "snd (m w) = w'" by simp
  with assms(1) [of w] assms(2) have "trace w' = trace w @ [ev] \<and> (\<forall>e \<in> set [ev]. P e)" by simp
  then show "\<exists>evs. trace w' = trace w @ evs \<and> (\<forall>ev \<in> set evs. P ev)" by blast
qed

lemma emits_if: "emits P a \<Longrightarrow> emits P b \<Longrightarrow> emits P (if c then a else b)"
  by simp

lemma emits_run_apktool_d: "(\<And>args. P (Subprocess args)) \<Longrightarrow> emits P (run_apktool_d E a apk out)"
  by (rule emits_oneI [where ev = "Subprocess [''java'', ''-jar'', path_str E a, ''d'', path_str E apk,
                                                ''-o'', path_str E out, ''-s'']"])
     (simp_all add: run_apktool_d_def raise_def split: sum.splits option.splits)

lemma emits_run_apktool_b: "(\<And>args. P (Subprocess args)) \<Longrightarrow> emits P (run_apktool_b E a u p)"
  by (rule emits_oneI [where ev = "Subprocess [''java'', ''-jar'', path_str E a, ''b'', path_str E u,
                                                ''-o'', path_str E p]"])
     (simp_all add: run_apktool_b_def raise_def split: sum.splits option.splits)

lemma emits_run_signer: "(\<And>args. P (Subprocess args)) \<Longrightarrow> emits P (run_signer E s p)"
  by (rule emits_oneI [where ev = "Subprocess [''java'', ''-jar'', path_str E s, ''-a'', path_str E p]"])
     (simp_all add: run_signer_def raise_def split: sum.splits option.splits)

lemma emits_patch_manifest: "emits P (patch_manifest E u)"
  by (rule emits_noneI)
     (simp add: patch_manifest_def Let_def bnd_def lift_result_def require_def raise_def ok_def fs_op_def
           split: sum.splits option.splits)

lemma emits_add_network_security_config: "emits P (add_network_security_config u)"
  unfolding add_network_security_config_def Let_def
  by (intro emits_bnd emits_fs_op)

lemma emits_patch_split:
  assumes "\<And>args. P (Subprocess args)"
  shows "emits P (patch_split E po a s apk)"
  unfolding patch_split_def Let_def
  by (intro emits_bnd emits_fs_op emits_if emits_ok emits_run_apktool_d emits_run_apktool_b
        emits_run_signer emits_patch_manifest emits_add_network_security_config assms)

lemma emits_patch_all:
  assumes "\<And>args. P (Subprocess args)"
  shows "emits P (patch_all E po a s apks)"
proof (induction apks)
  case Nil
  show ?case by (simp add: emits_ok)
next
  case (Cons apk apks)
  show ?case by (simp, intro emits_bnd emits_patch_split Cons.IH assms)
qed

lemma emits_reset_output: "emits P (reset_output d)"
  unfolding reset_output_def by (intro emits_bnd emits_fs_op)

lemma emits_iterdir: "emits P (\<lambda>w. lift_result (iterdir (files w) d) w)"
  by (rule emits_noneI) (simp add: lift_result_def split: sum.splits)

lemma emits_install_patched: "emits (\<lambda>_. True) (install_patched E pkg po)"
  unfolding emits_def
proof (intro allI impI)
  fix w r w' assume "install_patched E pkg po w = (r, w')"
  then have "\<exists>evs. trace w' = trace w @ evs"
    by (auto simp: install_patched_def Let_def ok_def raise_def split: if_splits)
  then show "\<exists>evs. trace w' = trace w @ evs \<and> (\<forall>ev \<in> set evs. True)" by simp
qed

lemma install_patched_run:
  shows "files (snd (install_patched E pkg po w)) = files w"
    and "adb_uninstall E pkg \<Longrightarrow>
           trace (snd (install_patched E pkg po w)) =
             trace w @ [Uninstall pkg, Print ''Installing patched APKs...'',
                        Subprocess ([''adb'', ''install-multiple'']
                          @ map (path_str E) (glob_apk (files w) po))]"
    and "fst (install_patched E pkg po w) = Inr () \<Longrightarrow> adb_uninstall E pkg"
  by (simp_all add: install_patched_def Let_def ok_def raise_def split: if_splits)

text \<open>The stages before the uninstall, as one action that returns the world after the loop.\<close>

lemma patch_package_stages:
  "patch_package E pkg a s =
     bnd (bnd (pull_package E pkg (join PACKAGES_DIR pkg)) (\<lambda>_.
          bnd (reset_output (PATCHED_DIR @ [pkg @ ''_patched''])) (\<lambda>_.
          bnd (\<lambda>w. lift_result (iterdir (files w) (join PACKAGES_DIR pkg)) w) (\<lambda>apks.
          patch_all E (PATCHED_DIR @ [pkg @ ''_patched'']) a s apks))))
       (\<lambda>_. install_patched E pkg (PATCHED_DIR @ [pkg @ ''_patched'']))"
  by (simp add: patch_package_def Let_def bnd_assoc)

lemma patch_package_reached:
  assumes reached: "\<exists>ev \<in> set (drop (length (trace w)) (trace (snd (patch_package E pkg a s w)))).
                      is_uninstall ev"
  obtains w0 w1 apks w2 where
    "pull_package E pkg (join PACKAGES_DIR pkg) w = (Inr (), w0)"
    "reset_output (PATCHED_DIR @ [pkg @ ''_patched'']) w0 = (Inr (), w1)"
    "iterdir (files w1) (join PACKAGES_DIR pkg) = Inr apks"
    "patch_all E (PATCHED_DIR @ [pkg @ ''_patched'']) a s apks w1 = (Inr (), w2)"
    "patch_package E pkg a s w = install_patched E pkg (PATCHED_DIR @ [pkg @ ''_patched'']) w2"
proof -
  let ?out = "join PACKAGES_DIR pkg"
  let ?po = "PATCHED_DIR @ [pkg @ ''_patched'']"
  let ?Q = "\<lambda>ev. \<not> is_uninstall ev"
  let ?stages = "bnd (pull_package E pkg ?out) (\<lambda>_.
      bnd (reset_output ?po) (\<lambda>_.
      bnd (\<lambda>w. lift_result (iterdir (files w) ?out) w) (\<lambda>apks.
      patch_all E ?po a s apks)))"
  have em: "emits ?Q ?stages"
    by (intro emits_bnd pull_package_emits_when emits_reset_output emits_iterdir emits_patch_all)
       simp_all
  obtain r w2 where st: "?stages w = (r, w2)" by (cases "?stages w")
  from emitsD [OF em st] obtain evs where
    evs: "trace w2 = trace w @ evs" "\<forall>ev \<in> set evs. ?Q ev" by blast
  have run: "patch_package E pkg a s w = bnd ?stages (\<lambda>_. install_patched E pkg ?po) w"
    by (simp add: patch_package_stages)
  show ?thesis
  proof (cases r)
    case (Inl e)
    with st run have "trace (snd (patch_package E pkg a s w)) = trace w2" by (simp add: bnd_def)
    with evs reached show ?thesis by auto
  next
    case (Inr u)
    with st have ok: "?stages w = (Inr (), w2)" by simp
    from ok obtain u0 w0 where s0: "pull_package E pkg ?out w = (Inr u0, w0)"
      and r0: "bnd (reset_output ?po) (\<lambda>_.
        bnd (\<lambda>w. lift_result (iterdir (files w) ?out) w) (\<lambda>apks.
        patch_all E ?po a s apks)) w0 = (Inr (), w2)"
      by (rule bnd_success)
    from r0 obtain u1 w1 where s1: "reset_output ?po w0 = (Inr u1, w1)"
      and r1: "bnd (\<lambda>w. lift_result (iterdir (files w) ?out) w) (\<lambda>apks.
        patch_all E ?po a s apks) w1 = (Inr (), w2)"
      by (rule bnd_success)
    from r1 obtain apks v1 where s2: "lift_result (iterdir (files w1) ?out) w1 = (Inr apks, v1)"
      and s3: "patch_all E ?po a s apks v1 = (Inr (), w2)"
      by (rule bnd_success)
    from s2 have it: "iterdir (files w1) ?out = Inr apks" and v1: "v1 = w1"
      by (auto simp: lift_result_def split: sum.splits)
    have pp: "patch_package E pkg a s w = install_patched E pkg ?po w2"
      using ok by (simp add: run bnd_def)
    from s0 s1 it s3 v1 pp show ?thesis by (intro that [of w0 w1 apks w2]) simp_all
  qed
qed

lemma pull_package_success:
  assumes run: "pull_package E pkg out w = (Inr (), w')"
  shows "\<exists>lines. shell_lines E (''pm path '' @ pkg) = Some lines \<and> lines \<noteq> []
      \<and> set (entries (files w') out) = set (entries (files w) out) \<union> local_name ` set lines"
proof -
  from run obtain lines where lines: "shell_lines E (''pm path '' @ pkg) = Some lines"
    by (cases "shell_lines E (''pm path '' @ pkg)") (auto simp: pull_package_def raise_def)
  have ne: "lines \<noteq> []"
  proof
    assume "lines = []"
    with lines run show False by (simp add: pull_package_def raise_def)
  qed
  note eq = pull_package_lines [OF lines ne, of out]
  let ?w0 = "w\<lparr>trace := trace w @ [Shell (''pm path '' @ pkg)]\<rparr>"
  from run obtain fs1 where mk: "mkdir_parents (files w) out = Inr fs1"
    and rest: "pull_all E out lines (?w0\<lparr>files := fs1\<rparr>) = (Inr (), w')"
    by (cases "mkdir_parents (files w) out") (auto simp: eq bnd_fs_op)
  have dirs: "lookup (files (?w0\<lparr>files := fs1\<rparr>)) out = Some Dir"
             "lookup (files (?w0\<lparr>files := fs1\<rparr>)) (butlast out) = Some Dir"
    using mkdir_parents_dirs [OF mk] by simp_all
  note P = pull_all_entries [OF rest dirs]
  have ent: "entries (files (?w0\<lparr>files := fs1\<rparr>)) out = entries (files w) out"
    using mkdir_parents_entries [OF mk] by simp
  from P ent have "set (entries (files w') out) = set (entries (files w) out) \<union> local_name ` set lines"
    by simp
  with lines ne show ?thesis by blast
qed

lemma package_dir_not_patched:
  "\<not> prefix (PATCHED_DIR @ [x]) (join PACKAGES_DIR pkg @ [n])"
proof -
  have j: "join PACKAGES_DIR pkg = [] \<or> join PACKAGES_DIR pkg = [''packages'']
      \<or> join PACKAGES_DIR pkg = [''packages'', pkg]"
    by (simp add: join_def PACKAGES_DIR_def)
  then show ?thesis by (auto simp: PATCHED_DIR_def)
qed

lemma reset_output_entries_other:
  assumes "reset_output po w0 = (Inr (), w1)" and "\<And>n. \<not> prefix po (out @ [n])"
  shows "set (entries (files w1) out) = set (entries (files w0) out)"
proof -
  note f = reset_output_success [OF assms(1)]
  have "out @ [n] \<noteq> po" for n using assms(2) [of n] by auto
  then show ?thesis
    using assms(2) by (auto simp: f(1) set_entries keys_remove_tree)
qed

lemma iterdir_success:
  assumes "iterdir fs d = Inr apks"
  shows "apks = map (\<lambda>n. d @ [n]) (entries fs d)"
  using assms by (auto simp: iterdir_def split: option.splits node.splits)

lemma patch_package_run:
  assumes run: "patch_package E pkg a s w = (r, w')"
    and reached: "\<exists>ev \<in> set (drop (length (trace w)) (trace w')). is_uninstall ev"
  shows "\<exists>lines w0 w1 evs.
      shell_lines E (''pm path '' @ pkg) = Some lines \<and> lines \<noteq> []
    \<and> pull_package E pkg (join PACKAGES_DIR pkg) w = (Inr (), w0)
    \<and> reset_output (PATCHED_DIR @ [pkg @ ''_patched'']) w0 = (Inr (), w1)
    \<and> set (entries (files w0) (join PACKAGES_DIR pkg))
        = set (entries (files w) (join PACKAGES_DIR pkg)) \<union> local_name ` set lines
    \<and> set (entries (files w') (PATCHED_DIR @ [pkg @ ''_patched'']))
        = (\<lambda>n. stem n @ ''_patched.apk'') ` set (entries (files w0) (join PACKAGES_DIR pkg))
    \<and> glob_apk (files w') (PATCHED_DIR @ [pkg @ ''_patched''])
        = map (\<lambda>n. (PATCHED_DIR @ [pkg @ ''_patched'']) @ [n])
            (entries (files w') (PATCHED_DIR @ [pkg @ ''_patched'']))
    \<and> (\<forall>n \<in> set (entries (files w') (PATCHED_DIR @ [pkg @ ''_patched''])).
          is_file (files w') ((PATCHED_DIR @ [pkg @ ''_patched'']) @ [n]))
    \<and> (adb_uninstall E pkg \<longrightarrow>
          trace w' = trace w1 @ evs
            @ [Uninstall pkg, Print ''Installing patched APKs...'',
               Subprocess ([''adb'', ''install-multiple'']
                 @ map (path_str E) (glob_apk (files w') (PATCHED_DIR @ [pkg @ ''_patched''])))])
    \<and> (\<forall>ev \<in> set evs. is_subprocess ev)
    \<and> (r = Inr () \<longrightarrow> adb_uninstall E pkg)"
proof -
  let ?out = "join PACKAGES_DIR pkg"
  let ?po = "PATCHED_DIR @ [pkg @ ''_patched'']"
  from reached run
  have "\<exists>ev \<in> set (drop (length (trace w)) (trace (snd (patch_package E pkg a s w)))). is_uninstall ev"
    by simp
  then obtain w0 w1 apks w2 where
    pull: "pull_package E pkg ?out w = (Inr (), w0)"
    and reset: "reset_output ?po w0 = (Inr (), w1)"
    and splits: "iterdir (files w1) ?out = Inr apks"
    and loop: "patch_all E ?po a s apks w1 = (Inr (), w2)"
    and inst: "patch_package E pkg a s w = install_patched E pkg ?po w2"
    by (rule patch_package_reached)
  from pull_package_success [OF pull] obtain lines where
    lines: "shell_lines E (''pm path '' @ pkg) = Some lines" "lines \<noteq> []"
    and e0: "set (entries (files w0) ?out) = set (entries (files w) ?out) \<union> local_name ` set lines"
    by blast
  have e1: "set (entries (files w1) ?out) = set (entries (files w0) ?out)"
    by (rule reset_output_entries_other [OF reset]) (rule package_dir_not_patched)
  note R = reset_output_empty [OF reset]
  have inv: "\<forall>n \<in> set (entries (files w1) ?po). \<exists>t. n = t @ ''_patched.apk''"
    using R(2) by simp
  note L = patch_all_run [OF loop R(1) reset_output_parent [OF reset] inv]
  from run inst have w': "w' = snd (install_patched E pkg ?po w2)"
    and r: "r = fst (install_patched E pkg ?po w2)" by simp_all
  note I = install_patched_run [of E pkg ?po w2]
  have fw: "files w' = files w2" using I(1) by (simp add: w')
  have names: "patched_name ` set apks = (\<lambda>n. stem n @ ''_patched.apk'') ` set (entries (files w0) ?out)"
    unfolding iterdir_success [OF splits] e1 [symmetric]
    by (auto simp: patched_name_def image_iff)
  have kids: "set (entries (files w2) ?po) = (\<lambda>n. stem n @ ''_patched.apk'') ` set (entries (files w0) ?out)"
    using L R(2) names by simp
  have all_apk: "\<forall>n \<in> set (entries (files w2) ?po). endswith n ''.apk''"
    using kids by (auto simp: patched_endswith_apk)
  then have "filter (\<lambda>n. endswith n ''.apk'') (entries (files w2) ?po) = entries (files w2) ?po"
    by (simp add: filter_id_conv)
  with L have glob: "glob_apk (files w2) ?po = map (\<lambda>n. ?po @ [n]) (entries (files w2) ?po)"
    by (simp add: glob_apk_def)
  have gfile: "\<forall>n \<in> set (entries (files w2) ?po). is_file (files w2) (?po @ [n])"
  proof
    fix n assume "n \<in> set (entries (files w2) ?po)"
    with L R(2) obtain apk where "apk \<in> set apks" "n = patched_name apk" by auto
    with L show "is_file (files w2) (?po @ [n])" by auto
  qed
  from L obtain evs where evs: "trace w2 = trace w1 @ evs" "\<forall>ev \<in> set evs. is_subprocess ev"
    by blast
  have tr: "trace w' = trace w1 @ evs
         @ [Uninstall pkg, Print ''Installing patched APKs...'',
            Subprocess ([''adb'', ''install-multiple''] @ map (path_str E) (glob_apk (files w') ?po))]"
    if "adb_uninstall E pkg"
    using I(2) [OF that] evs(1) by (simp add: w' I(1))
  have un: "r = Inr () \<longrightarrow> adb_uninstall E pkg" using I(3) by (simp add: r)
  from lines pull reset e0 kids glob gfile tr evs(2) un show ?thesis
    unfolding fw [symmetric] by blast
qed

section \<open>The install call\<close>




section \<open>The patched-output directory is reset\<close>

text \<open>
  Claim C9. \<open>reset_output\<close> (\<open>shutil.rmtree(..., ignore_errors=True)\<close>, then \<open>mkdir()\<close>) leaves
  the patched-output directory existing and empty whenever it returns. A run of the patch
  pipeline that starts any subprocess (decompile, recompile, sign, install) has first pulled
  the package and reset the directory: it passed through a state in which the directory
  was empty, no subprocess had been started before that state, and all later events come
  after it. Two runs that start from file systems differing only below the patched-output
  directory have the same result and the same trace, the arguments of the install call
  included, and once a subprocess was started they end in the same world. For a run that
  gets as far as the uninstall step, the entries of the directory at the end are exactly the
  files \<open><stem>_patched.apk\<close> of the entries of the local package directory, any other name
  below it does not exist, and when the uninstall returns the install call receives exactly
  those files.
\<close>

theorem patched_output_reset:
  "(\<forall>w1. reset_output d w = (Inr (), w1) \<longrightarrow>
       lookup (files w1) d = Some Dir \<and> entries (files w1) d = []
       \<and> subtree (files w1) d = [] \<and> glob_apk (files w1) d = [])
   \<and> ((\<exists>ev \<in> set (drop (length (trace w)) (trace (snd (patch_package E pkg a s w)))). is_subprocess ev)
        \<longrightarrow> (\<exists>w0 w1 evs evs'.
                pull_package E pkg (join PACKAGES_DIR pkg) w = (Inr (), w0)
              \<and> reset_output (PATCHED_DIR @ [pkg @ ''_patched'']) w0 = (Inr (), w1)
              \<and> entries (files w1) (PATCHED_DIR @ [pkg @ ''_patched'']) = []
              \<and> subtree (files w1) (PATCHED_DIR @ [pkg @ ''_patched'']) = []
              \<and> trace w1 = trace w @ evs \<and> (\<forall>ev \<in> set evs. \<not> is_subprocess ev)
              \<and> trace (snd (patch_package E pkg a s w)) = trace w1 @ evs'))
   \<and> (\<forall>v. agree (PATCHED_DIR @ [pkg @ ''_patched'']) w v \<longrightarrow>
         fst (patch_package E pkg a s w) = fst (patch_package E pkg a s v)
         \<and> trace (snd (patch_package E pkg a s w)) = trace (snd (patch_package E pkg a s v))
         \<and> ((\<exists>ev \<in> set (drop (length (trace w)) (trace (snd (patch_package E pkg a s w)))).
                is_subprocess ev)
              \<longrightarrow> snd (patch_package E pkg a s w) = snd (patch_package E pkg a s v)))
   \<and> (\<forall>r w'. patch_package E pkg a s w = (r, w')
           \<and> (\<exists>ev \<in> set (drop (length (trace w)) (trace w')). is_uninstall ev) \<longrightarrow>
         (\<exists>w0. pull_package E pkg (join PACKAGES_DIR pkg) w = (Inr (), w0)
            \<and> set (entries (files w') (PATCHED_DIR @ [pkg @ ''_patched'']))
                = (\<lambda>n. stem n @ ''_patched.apk'') ` set (entries (files w0) (join PACKAGES_DIR pkg))
            \<and> (\<forall>n. n \<notin> (\<lambda>n. stem n @ ''_patched.apk'') ` set (entries (files w0) (join PACKAGES_DIR pkg))
                  \<longrightarrow> lookup (files w') ((PATCHED_DIR @ [pkg @ ''_patched'']) @ [n]) = None)
            \<and> set (glob_apk (files w') (PATCHED_DIR @ [pkg @ ''_patched'']))
                = (\<lambda>n. (PATCHED_DIR @ [pkg @ ''_patched'']) @ [stem n @ ''_patched.apk''])
                    ` set (entries (files w0) (join PACKAGES_DIR pkg))
            \<and> (adb_uninstall E pkg \<longrightarrow>
                 last (trace w') =
                   Subprocess ([''adb'', ''install-multiple'']
                     @ map (path_str E) (glob_apk (files w') (PATCHED_DIR @ [pkg @ ''_patched'']))))))"
proof -
  let ?po = "PATCHED_DIR @ [pkg @ ''_patched'']"
  let ?out = "join PACKAGES_DIR pkg"
  let ?sub = "\<exists>ev \<in> set (drop (length (trace w)) (trace (snd (patch_package E pkg a s w)))). is_subprocess ev"
  let ?rest = "bnd (\<lambda>w. lift_result (iterdir (files w) ?out) w) (\<lambda>apks.
      bnd (patch_all E ?po a s apks) (\<lambda>_. install_patched E pkg ?po))"
  have first: "lookup (files w1) d = Some Dir \<and> entries (files w1) d = []
       \<and> subtree (files w1) d = [] \<and> glob_apk (files w1) d = []"
    if "reset_output d w = (Inr (), w1)" for w1
    using reset_output_empty [OF that] by simp
  have second: "\<exists>w0 w1 evs evs'.
                pull_package E pkg ?out w = (Inr (), w0)
              \<and> reset_output ?po w0 = (Inr (), w1)
              \<and> entries (files w1) ?po = [] \<and> subtree (files w1) ?po = []
              \<and> trace w1 = trace w @ evs \<and> (\<forall>ev \<in> set evs. \<not> is_subprocess ev)
              \<and> trace (snd (patch_package E pkg a s w)) = trace w1 @ evs'"
    if sub: ?sub
  proof -
    obtain r w0 where pull: "pull_package E pkg ?out w = (r, w0)" by (cases "pull_package E pkg ?out w")
    have "emits (\<lambda>ev. \<not> is_subprocess ev) (pull_package E pkg ?out)"
      by (rule pull_package_emits_when) simp_all
    from emitsD [OF this pull] obtain evs where
      evs: "trace w0 = trace w @ evs" "\<forall>ev \<in> set evs. \<not> is_subprocess ev" by blast
    obtain c w1 where rs: "reset_output ?po w0 = (c, w1)" by (cases "reset_output ?po w0")
    have tr1: "trace w1 = trace w0"
      using rs by (auto simp: reset_output_def bnd_fs_op fs_op_def split: sum.splits)
    have early: False if "trace (snd (patch_package E pkg a s w)) = trace w0"
      using that evs sub by auto
    show ?thesis
    proof (cases r)
      case (Inl e)
      with pull have "trace (snd (patch_package E pkg a s w)) = trace w0"
        by (simp add: patch_package_def Let_def bnd_def)
      with early show ?thesis by blast
    next
      case (Inr u)
      show ?thesis
      proof (cases c)
        case (Inl e)
        with pull Inr rs tr1 have "trace (snd (patch_package E pkg a s w)) = trace w0"
          by (simp add: patch_package_def Let_def bnd_def)
        with early show ?thesis by blast
      next
        case c: (Inr u1)
        from pull Inr have p: "pull_package E pkg ?out w = (Inr (), w0)" by simp
        from rs c have q: "reset_output ?po w0 = (Inr (), w1)" by simp
        have run: "patch_package E pkg a s w = ?rest w1"
          using p q by (simp add: patch_package_def Let_def bnd_def)
        have "emits (\<lambda>_. True) ?rest"
          by (intro emits_bnd emits_iterdir emits_patch_all emits_install_patched) simp
        from emitsD [OF this, of w1 "fst (?rest w1)" "snd (?rest w1)"]
        obtain evs' where "trace (snd (?rest w1)) = trace w1 @ evs'" by auto
        then have t: "trace (snd (patch_package E pkg a s w)) = trace w1 @ evs'" by (simp add: run)
        note R = reset_output_empty [OF q]
        from p q R(2,3) evs tr1 t show ?thesis by auto
      qed
    qed
  qed
  have third: "fst (patch_package E pkg a s w) = fst (patch_package E pkg a s v)
         \<and> trace (snd (patch_package E pkg a s w)) = trace (snd (patch_package E pkg a s v))
         \<and> (?sub \<longrightarrow> snd (patch_package E pkg a s w) = snd (patch_package E pkg a s v))"
    if ag: "agree ?po w v" for v
  proof -
    note pp = agree_pull_package [OF ag, of ?out E pkg]
    have p: "fst (pull_package E pkg ?out w) = fst (pull_package E pkg ?out v)
       \<and> agree ?po (snd (pull_package E pkg ?out w)) (snd (pull_package E pkg ?out v))"
      by (rule pp) (simp_all add: package_paths_outside)
    have all: "fst (patch_package E pkg a s w) = fst (patch_package E pkg a s v)
       \<and> trace (snd (patch_package E pkg a s w)) = trace (snd (patch_package E pkg a s v))
       \<and> ((\<exists>w0 w1. pull_package E pkg ?out w = (Inr (), w0) \<and> reset_output ?po w0 = (Inr (), w1))
            \<longrightarrow> snd (patch_package E pkg a s w) = snd (patch_package E pkg a s v))"
      unfolding patch_package_def Let_def
      by (rule agree_then_same [where d = ?po]) (simp_all add: p agree_reset_output)
    from all second show ?thesis by blast
  qed
  have fourth: "\<exists>w0. pull_package E pkg ?out w = (Inr (), w0)
            \<and> set (entries (files w') ?po)
                = (\<lambda>n. stem n @ ''_patched.apk'') ` set (entries (files w0) ?out)
            \<and> (\<forall>n. n \<notin> (\<lambda>n. stem n @ ''_patched.apk'') ` set (entries (files w0) ?out)
                  \<longrightarrow> lookup (files w') (?po @ [n]) = None)
            \<and> set (glob_apk (files w') ?po)
                = (\<lambda>n. ?po @ [stem n @ ''_patched.apk'']) ` set (entries (files w0) ?out)
            \<and> (adb_uninstall E pkg \<longrightarrow>
                 last (trace w') =
                   Subprocess ([''adb'', ''install-multiple''] @ map (path_str E) (glob_apk (files w') ?po)))"
    if run: "patch_package E pkg a s w = (r, w')"
      and reached: "\<exists>ev \<in> set (drop (length (trace w)) (trace w')). is_uninstall ev" for r w'
  proof -
    from patch_package_run [OF run reached] obtain lines and w0 w1 :: world and evs where
      g: "pull_package E pkg ?out w = (Inr (), w0)"
         "set (entries (files w') ?po) = (\<lambda>n. stem n @ ''_patched.apk'') ` set (entries (files w0) ?out)"
         "glob_apk (files w') ?po = map (\<lambda>n. ?po @ [n]) (entries (files w') ?po)"
         "adb_uninstall E pkg \<longrightarrow>
            trace w' = trace w1 @ evs
              @ [Uninstall pkg, Print ''Installing patched APKs...'',
                 Subprocess ([''adb'', ''install-multiple''] @ map (path_str E) (glob_apk (files w') ?po))]"
      by (elim exE conjE) (rule that)
    have gone: "lookup (files w') (?po @ [n]) = None"
      if "n \<notin> (\<lambda>n. stem n @ ''_patched.apk'') ` set (entries (files w0) ?out)" for n
    proof -
      from that g(2) have "n \<notin> set (entries (files w') ?po)" by simp
      then have "?po @ [n] \<notin> fst ` set (files w')" by (simp add: set_entries)
      then show ?thesis by (simp add: lookup_def map_of_eq_None_iff)
    qed
    have B: "set (glob_apk (files w') ?po)
        = (\<lambda>n. ?po @ [stem n @ ''_patched.apk'']) ` set (entries (files w0) ?out)"
      unfolding g(3) set_map g(2) image_image ..
    have A: "last (trace w') =
        Subprocess ([''adb'', ''install-multiple''] @ map (path_str E) (glob_apk (files w') ?po))"
      if "adb_uninstall E pkg"
    proof -
      from g(4) that have "trace w' = trace w1 @ evs
              @ [Uninstall pkg, Print ''Installing patched APKs...'',
                 Subprocess ([''adb'', ''install-multiple''] @ map (path_str E) (glob_apk (files w') ?po))]"
        by simp
      then show ?thesis by (rule ssubst) simp
    qed
    from g(1,2) gone B A show ?thesis by blast
  qed
  from first second third fourth show ?thesis by blast
qed

theorem patched_output_reset_witness:
  "agree (PATCHED_DIR @ [''com.x'' @ ''_patched'']) leftover_world clean_world
   \<and> is_file (files leftover_world) [''patched'', ''com.x_patched'', ''gone_patched.apk'']
   \<and> patch_package example_env ''com.x'' [''utils'', ''tool.jar''] [''utils'', ''tool.jar''] leftover_world
       = patch_package example_env ''com.x'' [''utils'', ''tool.jar''] [''utils'', ''tool.jar''] clean_world
   \<and> fst (patch_package example_env ''com.x'' [''utils'', ''tool.jar''] [''utils'', ''tool.jar'']
            leftover_world) = Inr ()
   \<and> lookup (files (snd (patch_package example_env ''com.x'' [''utils'', ''tool.jar'']
                            [''utils'', ''tool.jar''] leftover_world)))
        [''patched'', ''com.x_patched'', ''gone_patched.apk''] = None
   \<and> entries (files (snd (patch_package example_env ''com.x'' [''utils'', ''tool.jar'']
                             [''utils'', ''tool.jar''] leftover_world)))
        (PATCHED_DIR @ [''com.x'' @ ''_patched'']) = [''base_patched.apk'', ''split_patched.apk'']
   \<and> last (trace (snd (patch_package example_env ''com.x'' [''utils'', ''tool.jar'']
                          [''utils'', ''tool.jar''] leftover_world)))
        = Subprocess [''adb'', ''install-multiple'', ''/opt/patched/com.x_patched/base_patched.apk'',
                      ''/opt/patched/com.x_patched/split_patched.apk'']"
proof -
  let ?po = "PATCHED_DIR @ [''com.x'' @ ''_patched'']"
  let ?jar = "[''utils'', ''tool.jar'']"
  let ?r = "patch_package example_env ''com.x'' ?jar ?jar leftover_world"
  let ?c = "patch_package example_env ''com.x'' ?jar ?jar clean_world"
  have ag: "agree ?po leftover_world clean_world"
    by (simp add: agree_def outside_def leftover_world_def clean_world_def example_world_def
          PATCHED_DIR_def strict_prefix_def)
  have old: "is_file (files leftover_world) [''patched'', ''com.x_patched'', ''gone_patched.apk'']"
    by code_simp
  have ok: "fst ?r = Inr ()" by code_simp
  then have run: "?r = (Inr (), snd ?r)" by (simp add: prod_eq_iff)
  have gl: "glob_apk (files (snd ?r)) ?po
      = [[''patched'', ''com.x_patched'', ''base_patched.apk''],
         [''patched'', ''com.x_patched'', ''split_patched.apk'']]"
    by code_simp
  have args: "map (path_str example_env)
      [[''patched'', ''com.x_patched'', ''base_patched.apk''],
       [''patched'', ''com.x_patched'', ''split_patched.apk'']]
      = [''/opt/patched/com.x_patched/base_patched.apk'', ''/opt/patched/com.x_patched/split_patched.apk'']"
    by code_simp
  have un: "adb_uninstall example_env ''com.x''" by (simp add: example_env_def)
  have en: "entries (files (snd ?r)) ?po = [''base_patched.apk'', ''split_patched.apk'']"
    by code_simp
  have gone: "lookup (files (snd ?r)) [''patched'', ''com.x_patched'', ''gone_patched.apk''] = None"
    by code_simp
  have sub: "\<exists>ev \<in> set (drop (length (trace leftover_world)) (trace (snd ?r))). is_subprocess ev"
    by code_simp
  have reached: "\<exists>ev \<in> set (drop (length (trace leftover_world)) (trace (snd ?r))). is_uninstall ev"
    by code_simp
  note main_fact = patched_output_reset [of ?po leftover_world example_env "''com.x''" ?jar ?jar]
  from main_fact ag sub have "fst ?r = fst ?c \<and> snd ?r = snd ?c" by blast
  then have same: "?r = ?c" by (simp add: prod_eq_iff)
  have pr: "?r = (Inr (), snd ?r)
      \<and> (\<exists>ev \<in> set (drop (length (trace leftover_world)) (trace (snd ?r))). is_uninstall ev)"
    using run reached by (intro conjI)
  from main_fact [THEN conjunct2, THEN conjunct2, THEN conjunct2, rule_format, OF pr]
  obtain w0 :: world where
    "adb_uninstall example_env ''com.x'' \<longrightarrow>
       last (trace (snd ?r)) =
         Subprocess ([''adb'', ''install-multiple''] @ map (path_str example_env) (glob_apk (files (snd ?r)) ?po))"
    by (elim exE conjE) (rule that)
  with un have call: "last (trace (snd ?r)) =
      Subprocess ([''adb'', ''install-multiple''] @ map (path_str example_env) (glob_apk (files (snd ?r)) ?po))"
    by simp
  have tr: "last (trace (snd ?r))
        = Subprocess [''adb'', ''install-multiple'', ''/opt/patched/com.x_patched/base_patched.apk'',
                      ''/opt/patched/com.x_patched/split_patched.apk'']"
    unfolding call gl args by simp
  from ag old same ok gone en tr show ?thesis by blast
qed

end
